theory Spec2Isabelle
  imports Complex_Main "HOL-Library.Word"
begin

unbundle bit_operations_syntax

section \<open>The receiver (ir\_reciever.c)\<close>

subsection \<open>Constants and bit macros\<close>

definition EVENT_BUFFER_SIZE :: nat where
  "EVENT_BUFFER_SIZE = 30"

definition DATA_BUFFER_SIZE :: nat where
  "DATA_BUFFER_SIZE = 12"

definition FIRST_BIT_POS :: "8 word" where "FIRST_BIT_POS = 51"
definition SECOND_BIT_POS :: "8 word" where "SECOND_BIT_POS = 47"
definition THIRD_BIT_POS :: "8 word" where "THIRD_BIT_POS = 43"
definition FOURTH_BIT_POS :: "8 word" where "FOURTH_BIT_POS = 39"
definition FIFTH_BIT_POS :: "8 word" where "FIFTH_BIT_POS = 35"
definition SIXTH_BIT_POS :: "8 word" where "SIXTH_BIT_POS = 31"
definition SEVENTH_BIT_POS :: "8 word" where "SEVENTH_BIT_POS = 27"
definition EIGHTH_BIT_POS :: "8 word" where "EIGHTH_BIT_POS = 23"

text \<open>bitwiseop.h: \<^verbatim>\<open>_BV(bit)\<close> is \<^verbatim>\<open>1 << bit\<close>; \<^verbatim>\<open>_set_bit\<close> ors it into the
  byte, \<^verbatim>\<open>_clear_bit\<close> ands its complement.\<close>

definition BV :: "8 word \<Rightarrow> 8 word" where
  "BV bit_no = push_bit (unat bit_no) 1"

definition set_bit_byte :: "8 word \<Rightarrow> 8 word \<Rightarrow> 8 word" where
  "set_bit_byte byte bit_no = byte OR BV bit_no"

definition clear_bit_byte :: "8 word \<Rightarrow> 8 word \<Rightarrow> 8 word" where
  "clear_bit_byte byte bit_no = byte AND NOT (BV bit_no)"

text \<open>Bit numbers of TCCR1B on the ATmega328P (avr/io.h).\<close>

definition CS10 :: "8 word" where "CS10 = 0"
definition ICES1 :: "8 word" where "ICES1 = 6"
definition ICNC1 :: "8 word" where "ICNC1 = 7"

subsection \<open>State\<close>

text \<open>The file-scope variables of ir\_reciever.c and the one timer register whose
  value the capture handler changes. The two arrays are lists; their declared lengths
  are \<open>DATA_BUFFER_SIZE\<close> and \<open>EVENT_BUFFER_SIZE\<close>.\<close>

record receiver =
  g_last_event :: "64 word"
  g_byte_cnt :: "8 word"
  g_virtual_cnt :: "64 word"
  g_is_edge_falling :: bool
  g_is_event_buffer_full :: bool
  g_event_buffer_index :: "8 word"
  g_data_buffer :: "8 word list"
  g_event_buffer :: "64 word list"
  TCCR1B :: "8 word"

text \<open>An access outside an array is undefined in C; the model stops there, naming the
  array and the offending index.\<close>

datatype error = Data_buffer_overrun nat | Event_buffer_overrun nat

text \<open>Static storage is zeroed before \<open>main\<close> runs.\<close>

definition power_on :: receiver where
  "power_on = \<lparr>g_last_event = 0, g_byte_cnt = 0, g_virtual_cnt = 0,
     g_is_edge_falling = False, g_is_event_buffer_full = False,
     g_event_buffer_index = 0,
     g_data_buffer = replicate DATA_BUFFER_SIZE 0,
     g_event_buffer = replicate EVENT_BUFFER_SIZE 0,
     TCCR1B = 0\<rparr>"

definition TIMER1_init :: "receiver \<Rightarrow> receiver" where
  "TIMER1_init s =
     s\<lparr>TCCR1B := clear_bit_byte (TCCR1B s OR BV ICNC1 OR BV CS10) ICES1\<rparr>"

definition IR_Reciever_init :: "receiver \<Rightarrow> receiver" where
  "IR_Reciever_init s =
     TIMER1_init (s\<lparr>g_byte_cnt := 0, g_last_event := 0, g_virtual_cnt := 0,
       g_event_buffer_index := 0, g_is_edge_falling := True,
       g_is_event_buffer_full := False\<rparr>)"

text \<open>The receiver as \<open>main\<close> starts it.\<close>

definition initialised :: receiver where
  "initialised = IR_Reciever_init power_on"

subsection \<open>Decoding one window\<close>

definition write_bit :: "8 word \<Rightarrow> bool \<Rightarrow> receiver \<Rightarrow> error + receiver" where
  "write_bit bit_no logic_level s =
     (let k = unat (g_byte_cnt s) in
      if k < DATA_BUFFER_SIZE then
        Inr (s\<lparr>g_data_buffer := (g_data_buffer s)[k :=
               (if logic_level then set_bit_byte (g_data_buffer s ! k) bit_no
                else clear_bit_byte (g_data_buffer s ! k) bit_no)]\<rparr>)
      else Inl (Data_buffer_overrun k))"

definition find_bit_position :: "8 word \<Rightarrow> bool \<Rightarrow> receiver \<Rightarrow> error + receiver" where
  "find_bit_position bit_position logic_level s =
     (if bit_position = FIRST_BIT_POS then write_bit 0 logic_level s
      else if bit_position = SECOND_BIT_POS then write_bit 1 logic_level s
      else if bit_position = THIRD_BIT_POS then write_bit 2 logic_level s
      else if bit_position = FOURTH_BIT_POS then write_bit 3 logic_level s
      else if bit_position = FIFTH_BIT_POS then write_bit 4 logic_level s
      else if bit_position = SIXTH_BIT_POS then write_bit 5 logic_level s
      else if bit_position = SEVENTH_BIT_POS then write_bit 6 logic_level s
      else if bit_position = EIGHTH_BIT_POS then write_bit 7 logic_level s
      else Inr s)"

text \<open>The width of a pulse in \<open>update_data_buffer\<close>: the cast applies to the buffer
  entry alone, the subtraction is done in 64 bits, and the assignment keeps the low 16
  bits.\<close>

definition pulse_width_of :: "64 word \<Rightarrow> 64 word \<Rightarrow> 16 word" where
  "pulse_width_of event last_event =
     ucast ((ucast (ucast event :: 16 word) :: 64 word) - last_event)"

text \<open>The \<open>if\<close>/\<open>else if\<close> chain of \<open>update_data_buffer\<close> that sets
  \<open>quater_of_bit\<close>; with no branch taken the variable keeps its value.\<close>

definition classify_pulse_width :: "16 word \<Rightarrow> 8 word \<Rightarrow> 8 word" where
  "classify_pulse_width pulse_width quater_of_bit =
     (if pulse_width > 20 \<and> pulse_width < 100 then 1
      else if pulse_width > 120 \<and> pulse_width < 200 then 3
      else if pulse_width > 220 \<and> pulse_width < 300 then 5
      else quater_of_bit)"

text \<open>The inner loop over \<open>j\<close>: \<open>n\<close> is the number of iterations left.\<close>

fun quater_loop :: "nat \<Rightarrow> bool \<Rightarrow> 8 word \<Rightarrow> receiver \<Rightarrow> error + (8 word \<times> receiver)" where
  "quater_loop 0 state event_cnt s = Inr (event_cnt, s)"
| "quater_loop (Suc n) state event_cnt s =
     (case (if event_cnt = EIGHTH_BIT_POS then find_bit_position event_cnt state s
            else Inr s) of
        Inl e \<Rightarrow> Inl e
      | Inr s' \<Rightarrow> quater_loop n state (event_cnt + 1) s')"

text \<open>One iteration of the outer loop, at index \<open>i\<close>, on the locals
  \<open>event_cnt\<close>, \<open>quater_of_bit\<close> and \<open>state\<close>.\<close>

type_synonym locals = "8 word \<times> 8 word \<times> bool"

definition decode_edge :: "nat \<Rightarrow> locals \<times> receiver \<Rightarrow> error + (locals \<times> receiver)" where
  "decode_edge i ls =
     (case ls of ((event_cnt, quater_of_bit, state), s) \<Rightarrow>
        if i > 0 then
          (let pulse_width = pulse_width_of (g_event_buffer s ! i) (g_last_event s);
               q = classify_pulse_width pulse_width quater_of_bit
           in case quater_loop (unat q) state event_cnt s of
                Inl e \<Rightarrow> Inl e
              | Inr (event_cnt', s') \<Rightarrow>
                  Inr ((event_cnt', q, \<not> state),
                       s'\<lparr>g_last_event := g_event_buffer s' ! i\<rparr>))
        else Inr ((event_cnt, quater_of_bit, state),
                  s\<lparr>g_last_event := g_event_buffer s ! i\<rparr>))"

fun decode_edges :: "nat list \<Rightarrow> locals \<times> receiver \<Rightarrow> error + (locals \<times> receiver)" where
  "decode_edges [] ls = Inr ls"
| "decode_edges (i # is) ls =
     (case decode_edge i ls of Inl e \<Rightarrow> Inl e | Inr ls' \<Rightarrow> decode_edges is ls')"

definition update_data_buffer :: "receiver \<Rightarrow> error + receiver" where
  "update_data_buffer s =
     (case decode_edges [0..<EVENT_BUFFER_SIZE] ((0, 0, True), s) of
        Inl e \<Rightarrow> Inl e
      | Inr (ls, s') \<Rightarrow> Inr s')"

definition IR_get_data :: "receiver \<Rightarrow> 8 word list" where
  "IR_get_data s = g_data_buffer s"

definition IR_is_data_available :: "receiver \<Rightarrow> error + (bool \<times> receiver)" where
  "IR_is_data_available s =
     (case (if g_is_event_buffer_full s then
              (case update_data_buffer s of
                 Inl e \<Rightarrow> Inl e
               | Inr s' \<Rightarrow> Inr (s'\<lparr>g_is_event_buffer_full := False\<rparr>))
            else Inr s) of
        Inl e \<Rightarrow> Inl e
      | Inr s1 \<Rightarrow>
          if g_byte_cnt s1 = of_nat DATA_BUFFER_SIZE
          then Inr (True, s1\<lparr>g_byte_cnt := 0\<rparr>)
          else Inr (False, s1))"

text \<open>What a decode may change: the last event, and in the data buffer nothing but
  bit 7 of its bytes. \<open>decoded_from s s'\<close> says that \<open>s'\<close> differs from \<open>s\<close>
  in no other way.\<close>

definition decoded_from :: "receiver \<Rightarrow> receiver \<Rightarrow> bool" where
  "decoded_from s s' =
     (g_byte_cnt s' = g_byte_cnt s \<and> g_virtual_cnt s' = g_virtual_cnt s
      \<and> g_is_edge_falling s' = g_is_edge_falling s
      \<and> g_is_event_buffer_full s' = g_is_event_buffer_full s
      \<and> g_event_buffer_index s' = g_event_buffer_index s
      \<and> g_event_buffer s' = g_event_buffer s \<and> TCCR1B s' = TCCR1B s
      \<and> length (g_data_buffer s') = length (g_data_buffer s)
      \<and> map (take_bit 7) (g_data_buffer s') = map (take_bit 7) (g_data_buffer s))"

subsection \<open>The decode with an out-of-range store carried out\<close>








subsection \<open>Interrupt handlers\<close>

definition ISR_TIMER1_OVF_vect :: "receiver \<Rightarrow> receiver" where
  "ISR_TIMER1_OVF_vect s = s\<lparr>g_virtual_cnt := g_virtual_cnt s + 0x10000\<rparr>"

text \<open>The capture handler reads the two halves of the capture register, given here as
  arguments.\<close>

definition timer_value_of :: "8 word \<Rightarrow> 8 word \<Rightarrow> 16 word" where
  "timer_value_of ICR1H ICR1L = push_bit 8 (ucast ICR1H) OR ucast ICR1L"

definition ISR_TIMER1_CAPT_vect :: "8 word \<Rightarrow> 8 word \<Rightarrow> receiver \<Rightarrow> error + receiver" where
  "ISR_TIMER1_CAPT_vect ICR1H ICR1L s =
     (let timer_value = timer_value_of ICR1H ICR1L;
          s1 = s\<lparr>TCCR1B := (if g_is_edge_falling s then set_bit_byte (TCCR1B s) ICES1
                             else clear_bit_byte (TCCR1B s) ICES1),
                 g_is_edge_falling := \<not> g_is_edge_falling s\<rparr>;
          k = unat (g_event_buffer_index s1)
      in if k < EVENT_BUFFER_SIZE then
           (let s2 = s1\<lparr>g_event_buffer := (g_event_buffer s1)[k :=
                          g_virtual_cnt s1 + ucast timer_value]\<rparr>;
                s3 = s2\<lparr>g_event_buffer_index := g_event_buffer_index s2 + 1\<rparr>
            in if g_event_buffer_index s3 = of_nat EVENT_BUFFER_SIZE then
                 Inr (s3\<lparr>g_byte_cnt := g_byte_cnt s3 + 1,
                         g_event_buffer_index := 0,
                         g_is_event_buffer_full := True\<rparr>)
               else Inr s3)
         else Inl (Event_buffer_overrun k))"

subsection \<open>Interrupts and polls in sequence\<close>

datatype interrupt = Overflow | Capture "8 word" "8 word"

fun interrupt_step :: "interrupt \<Rightarrow> receiver \<Rightarrow> error + receiver" where
  "interrupt_step Overflow s = Inr (ISR_TIMER1_OVF_vect s)"
| "interrupt_step (Capture ICR1H ICR1L) s = ISR_TIMER1_CAPT_vect ICR1H ICR1L s"

fun interrupts :: "interrupt list \<Rightarrow> receiver \<Rightarrow> error + receiver" where
  "interrupts [] s = Inr s"
| "interrupts (x # xs) s =
     (case interrupt_step x s of Inl e \<Rightarrow> Inl e | Inr s' \<Rightarrow> interrupts xs s')"

text \<open>The foreground loop of main.c only polls \<open>IR_is_data_available\<close>; what it
  prints does not change the receiver.\<close>

datatype event = Interrupt interrupt | Poll

fun handle_event :: "event \<Rightarrow> receiver \<Rightarrow> error + receiver" where
  "handle_event (Interrupt x) s = interrupt_step x s"
| "handle_event Poll s =
     (case IR_is_data_available s of Inl e \<Rightarrow> Inl e | Inr (status, s') \<Rightarrow> Inr s')"

fun run :: "event list \<Rightarrow> receiver \<Rightarrow> error + receiver" where
  "run [] s = Inr s"
| "run (x # xs) s =
     (case handle_event x s of Inl e \<Rightarrow> Inl e | Inr s' \<Rightarrow> run xs s')"

definition count_overflows :: "interrupt list \<Rightarrow> nat" where
  "count_overflows xs = length (filter (\<lambda>x. x = Overflow) xs)"

definition count_captures :: "interrupt list \<Rightarrow> nat" where
  "count_captures xs = length (filter (\<lambda>x. x \<noteq> Overflow) xs)"

text \<open>A capture whose capture register holds the 16-bit value \<open>t\<close>.\<close>

definition capture_of :: "16 word \<Rightarrow> interrupt" where
  "capture_of t = Capture (ucast (drop_bit 8 t)) (ucast t)"

subsection \<open>The decoder as the specification words it\<close>

text \<open>The specification's decoder for one window, for comparison with
  \<open>update_data_buffer\<close>: the state starts true and flips after every edge but the
  first, every interval is classified into quarter units, and at every unit whose count
  is one of the eight offsets the state is written into the bit of that offset.\<close>

definition offset_bit :: "8 word \<Rightarrow> 8 word option" where
  "offset_bit event_cnt =
     (if event_cnt = 51 then Some 0 else if event_cnt = 47 then Some 1
      else if event_cnt = 43 then Some 2 else if event_cnt = 39 then Some 3
      else if event_cnt = 35 then Some 4 else if event_cnt = 31 then Some 5
      else if event_cnt = 27 then Some 6 else if event_cnt = 23 then Some 7
      else None)"

definition spec_write :: "8 word \<Rightarrow> bool \<Rightarrow> 8 word \<Rightarrow> 8 word" where
  "spec_write event_cnt state byte =
     (case offset_bit event_cnt of
        None \<Rightarrow> byte
      | Some k \<Rightarrow> if state then set_bit_byte byte k else clear_bit_byte byte k)"

fun spec_quarters :: "nat \<Rightarrow> bool \<Rightarrow> 8 word \<Rightarrow> 8 word \<Rightarrow> 8 word \<times> 8 word" where
  "spec_quarters 0 state event_cnt byte = (event_cnt, byte)"
| "spec_quarters (Suc n) state event_cnt byte =
     spec_quarters n state (event_cnt + 1) (spec_write event_cnt state byte)"

fun spec_edges :: "64 word list \<Rightarrow> 64 word \<Rightarrow> locals \<Rightarrow> 8 word \<Rightarrow> 8 word" where
  "spec_edges [] previous ls byte = byte"
| "spec_edges (t # ts) previous ls byte =
     (case ls of (event_cnt, quater_of_bit, state) \<Rightarrow>
        (let q = classify_pulse_width (pulse_width_of t previous) quater_of_bit;
             (event_cnt', byte') = spec_quarters (unat q) state event_cnt byte
         in spec_edges ts t (event_cnt', q, \<not> state) byte'))"

definition spec_decode :: "64 word list \<Rightarrow> 8 word \<Rightarrow> 8 word" where
  "spec_decode window byte =
     (case window of [] \<Rightarrow> byte | t # ts \<Rightarrow> spec_edges ts t (0, 0, True) byte)"

subsection \<open>Edge windows used as inputs\<close>

text \<open>Widths of 60, 160 and 260 timer ticks stand for 1, 3 and 5 quarter units. In
  \<open>window_178\<close> the units 23, 31, 35 and 47 fall into intervals with the state true
  and the units 27, 39, 43 and 51 into intervals with the state false: the bits of
  \<open>0b10110010\<close>. In \<open>window_255\<close> all eight offsets fall into intervals with the
  state true.\<close>

definition window_178 :: "16 word list" where
  "window_178 =
     [1000, 1060, 1120, 1180, 1240, 1300, 1360, 1420, 1480, 1540,
      1600, 1660, 1720, 1780, 1840, 1900, 1960, 2120, 2280, 2440,
      2600, 2860, 2920, 3080, 3240, 3300, 3460, 3720, 3880, 3940]"

definition window_255 :: "16 word list" where
  "window_255 =
     [500, 560, 620, 680, 740, 800, 860, 920, 980, 1040,
      1100, 1260, 1420, 1580, 1740, 1900, 1960, 2120, 2180, 2340,
      2400, 2560, 2620, 2780, 2840, 3000, 3060, 3220, 3280, 3440]"

definition reception :: "event list" where
  "reception =
     concat (replicate 12
       (map (\<lambda>t. Interrupt (capture_of t)) window_178 @ [Interrupt Overflow, Poll]))"

text \<open>The receiver after the twelfth window of \<open>reception\<close> and the overflow that
  follows it, before the poll.\<close>

definition twelfth_window_pending :: receiver where
  "twelfth_window_pending =
     \<lparr>g_last_event = 659300, g_byte_cnt = 12, g_virtual_cnt = 786432,
      g_is_edge_falling = True, g_is_event_buffer_full = True,
      g_event_buffer_index = 0,
      g_data_buffer = [0, 128, 128, 128, 128, 128, 128, 128, 128, 128, 128, 128],
      g_event_buffer = map (\<lambda>t. 720896 + ucast t) window_178,
      TCCR1B = 129\<rparr>"

text \<open>A window and the first seventeen captures of the next, with no poll in
  between.\<close>

definition window_and_a_half :: "interrupt list" where
  "window_and_a_half = map capture_of (window_178 @ take 17 window_255)"

text \<open>What the foreground can see of the window in progress: the full flag, the
  window index and the data buffer.\<close>

definition window_status :: "receiver \<Rightarrow> bool \<times> 8 word \<times> 8 word list" where
  "window_status s = (g_is_event_buffer_full s, g_event_buffer_index s, IR_get_data s)"

section \<open>The emitter (ir\_emitter.c)\<close>

subsection \<open>Timing constants\<close>

text \<open>The constants are \<^verbatim>\<open>double\<close> literals that the preprocessor pastes into the
  arguments of the delay routines; the model keeps them as exact rationals, in the unit
  of the routine that receives them (microseconds, or milliseconds for \<open>STOP_TIME\<close>
  and \<open>START_TIME\<close>).\<close>

definition IR_LED :: "8 word" where "IR_LED = 4"

definition CYCLES :: nat where "CYCLES = 8"

definition PERIOD :: rat where "PERIOD = 30.3"

definition HALF_BIT_TIME :: rat where "HALF_BIT_TIME = 427.25"

definition STOP_TIME :: rat where "STOP_TIME = 2.84"

definition START_TIME :: rat where "START_TIME = 31.95"

text \<open>Modelled from the spec: the macro \<^verbatim>\<open>CYCLES_FREQUENCY\<close>, which
  \<^verbatim>\<open>LOW_LEVEL1_TIME\<close> multiplies by \<open>CYCLES\<close> and which no file under src/ defines.
  The specification derives ShortLow as the half-bit time less eight burst periods of
  30.3 microseconds, the value the source gives to \<open>PERIOD\<close>.\<close>

definition CYCLES_FREQUENCY :: rat where "CYCLES_FREQUENCY = 30.3"

definition LOW_LEVEL1_TIME :: rat where
  "LOW_LEVEL1_TIME = HALF_BIT_TIME - (of_nat CYCLES * CYCLES_FREQUENCY)"

definition LOW_LEVEL2_TIME :: rat where
  "LOW_LEVEL2_TIME = HALF_BIT_TIME"

definition LOW_LEVEL3_TIME :: rat where
  "LOW_LEVEL3_TIME = LOW_LEVEL1_TIME + LOW_LEVEL2_TIME"

definition LOW_LEVEL4_TIME :: rat where
  "LOW_LEVEL4_TIME = LOW_LEVEL1_TIME + (2 * LOW_LEVEL2_TIME)"

subsection \<open>Pulse levels, commands and tables\<close>

datatype Pulse_Level = HIGH_LEVEL | LOW_LEVEL1 | LOW_LEVEL2 | LOW_LEVEL3 | LOW_LEVEL4

definition GET_COUNTER :: "8 word" where "GET_COUNTER = 0"

definition CLEAN_MEMORY :: "8 word" where "CLEAN_MEMORY = 1"

definition g_ascii_ESC :: "Pulse_Level list" where
  "g_ascii_ESC =
     [LOW_LEVEL2, HIGH_LEVEL, LOW_LEVEL1, HIGH_LEVEL,
      LOW_LEVEL4, HIGH_LEVEL, LOW_LEVEL1, HIGH_LEVEL,
      LOW_LEVEL4, HIGH_LEVEL, LOW_LEVEL3, HIGH_LEVEL,
      LOW_LEVEL3, HIGH_LEVEL, LOW_LEVEL1, HIGH_LEVEL,
      LOW_LEVEL3, HIGH_LEVEL, LOW_LEVEL4, HIGH_LEVEL,
      LOW_LEVEL1, HIGH_LEVEL, LOW_LEVEL3, HIGH_LEVEL,
      LOW_LEVEL3]"

definition g_ascii_DP :: "Pulse_Level list" where
  "g_ascii_DP =
     [LOW_LEVEL2, HIGH_LEVEL, LOW_LEVEL1, HIGH_LEVEL,
      LOW_LEVEL4, HIGH_LEVEL, LOW_LEVEL1, HIGH_LEVEL,
      LOW_LEVEL3, HIGH_LEVEL, LOW_LEVEL3, HIGH_LEVEL,
      LOW_LEVEL3, HIGH_LEVEL, LOW_LEVEL3, HIGH_LEVEL,
      LOW_LEVEL3, HIGH_LEVEL, LOW_LEVEL4, HIGH_LEVEL,
      LOW_LEVEL3, HIGH_LEVEL, LOW_LEVEL1, HIGH_LEVEL,
      LOW_LEVEL3]"

definition g_ascii_Y :: "Pulse_Level list" where
  "g_ascii_Y =
     [HIGH_LEVEL, LOW_LEVEL3, HIGH_LEVEL, LOW_LEVEL3,
      HIGH_LEVEL, LOW_LEVEL4, HIGH_LEVEL, LOW_LEVEL3,
      HIGH_LEVEL, LOW_LEVEL1, HIGH_LEVEL, LOW_LEVEL4,
      HIGH_LEVEL, LOW_LEVEL1, HIGH_LEVEL, LOW_LEVEL3,
      HIGH_LEVEL, LOW_LEVEL4, HIGH_LEVEL, LOW_LEVEL3,
      HIGH_LEVEL, LOW_LEVEL1, HIGH_LEVEL, LOW_LEVEL3]"

definition g_ascii_P :: "Pulse_Level list" where
  "g_ascii_P =
     [LOW_LEVEL2, HIGH_LEVEL, LOW_LEVEL1, HIGH_LEVEL,
      LOW_LEVEL4, HIGH_LEVEL, LOW_LEVEL3, HIGH_LEVEL,
      LOW_LEVEL3, HIGH_LEVEL, LOW_LEVEL1, HIGH_LEVEL,
      LOW_LEVEL4, HIGH_LEVEL, LOW_LEVEL1, HIGH_LEVEL,
      LOW_LEVEL4, HIGH_LEVEL, LOW_LEVEL3, HIGH_LEVEL,
      LOW_LEVEL3, HIGH_LEVEL, LOW_LEVEL3, HIGH_LEVEL,
      LOW_LEVEL1]"

definition g_ascii_3 :: "Pulse_Level list" where
  "g_ascii_3 =
     [LOW_LEVEL2, HIGH_LEVEL, LOW_LEVEL3, HIGH_LEVEL,
      LOW_LEVEL3, HIGH_LEVEL, LOW_LEVEL3, HIGH_LEVEL,
      LOW_LEVEL3, HIGH_LEVEL, LOW_LEVEL3, HIGH_LEVEL,
      LOW_LEVEL1, HIGH_LEVEL, LOW_LEVEL3, HIGH_LEVEL,
      LOW_LEVEL4, HIGH_LEVEL, LOW_LEVEL3, HIGH_LEVEL,
      LOW_LEVEL1, HIGH_LEVEL, LOW_LEVEL3, HIGH_LEVEL,
      LOW_LEVEL3]"

definition g_ascii_M :: "Pulse_Level list" where
  "g_ascii_M =
     [LOW_LEVEL2, HIGH_LEVEL, LOW_LEVEL3, HIGH_LEVEL,
      LOW_LEVEL1, HIGH_LEVEL, LOW_LEVEL4, HIGH_LEVEL,
      LOW_LEVEL3, HIGH_LEVEL, LOW_LEVEL1, HIGH_LEVEL,
      LOW_LEVEL4, HIGH_LEVEL, LOW_LEVEL3, HIGH_LEVEL,
      LOW_LEVEL1, HIGH_LEVEL, LOW_LEVEL3, HIGH_LEVEL,
      LOW_LEVEL4, HIGH_LEVEL, LOW_LEVEL1, HIGH_LEVEL,
      LOW_LEVEL3]"

definition g_ascii_I :: "Pulse_Level list" where
  "g_ascii_I =
     [LOW_LEVEL2, HIGH_LEVEL, LOW_LEVEL1, HIGH_LEVEL,
      LOW_LEVEL4, HIGH_LEVEL, LOW_LEVEL3, HIGH_LEVEL,
      LOW_LEVEL3, HIGH_LEVEL, LOW_LEVEL1, HIGH_LEVEL,
      LOW_LEVEL4, HIGH_LEVEL, LOW_LEVEL3, HIGH_LEVEL,
      LOW_LEVEL1, HIGH_LEVEL, LOW_LEVEL4, HIGH_LEVEL,
      LOW_LEVEL3, HIGH_LEVEL, LOW_LEVEL1, HIGH_LEVEL,
      LOW_LEVEL3]"

definition g_ascii_O :: "Pulse_Level list" where
  "g_ascii_O =
     [LOW_LEVEL2, HIGH_LEVEL, LOW_LEVEL1, HIGH_LEVEL,
      LOW_LEVEL4, HIGH_LEVEL, LOW_LEVEL3, HIGH_LEVEL,
      LOW_LEVEL3, HIGH_LEVEL, LOW_LEVEL1, HIGH_LEVEL,
      LOW_LEVEL4, HIGH_LEVEL, LOW_LEVEL3, HIGH_LEVEL,
      LOW_LEVEL1, HIGH_LEVEL, LOW_LEVEL3, HIGH_LEVEL,
      LOW_LEVEL3, HIGH_LEVEL, LOW_LEVEL3, HIGH_LEVEL,
      LOW_LEVEL3]"

definition g_ascii_F :: "Pulse_Level list" where
  "g_ascii_F =
     [HIGH_LEVEL, LOW_LEVEL3, HIGH_LEVEL, LOW_LEVEL4,
      HIGH_LEVEL, LOW_LEVEL1, HIGH_LEVEL, LOW_LEVEL4,
      HIGH_LEVEL, LOW_LEVEL1, HIGH_LEVEL, LOW_LEVEL4,
      HIGH_LEVEL, LOW_LEVEL3, HIGH_LEVEL, LOW_LEVEL3,
      HIGH_LEVEL, LOW_LEVEL1, HIGH_LEVEL, LOW_LEVEL3,
      HIGH_LEVEL, LOW_LEVEL4, HIGH_LEVEL, LOW_LEVEL1]"

definition g_ascii_FF :: "Pulse_Level list" where
  "g_ascii_FF =
     [HIGH_LEVEL, LOW_LEVEL3, HIGH_LEVEL, LOW_LEVEL3,
      HIGH_LEVEL, LOW_LEVEL3, HIGH_LEVEL, LOW_LEVEL4,
      HIGH_LEVEL, LOW_LEVEL3, HIGH_LEVEL, LOW_LEVEL3,
      HIGH_LEVEL, LOW_LEVEL3, HIGH_LEVEL, LOW_LEVEL1,
      HIGH_LEVEL, LOW_LEVEL3, HIGH_LEVEL, LOW_LEVEL4,
      HIGH_LEVEL, LOW_LEVEL3, HIGH_LEVEL, LOW_LEVEL1]"

definition g_ascii_EOT :: "Pulse_Level list" where
  "g_ascii_EOT =
     [LOW_LEVEL2, HIGH_LEVEL, LOW_LEVEL1, HIGH_LEVEL,
      LOW_LEVEL3, HIGH_LEVEL, LOW_LEVEL4, HIGH_LEVEL,
      LOW_LEVEL3, HIGH_LEVEL, LOW_LEVEL3, HIGH_LEVEL,
      LOW_LEVEL3, HIGH_LEVEL, LOW_LEVEL3, HIGH_LEVEL,
      LOW_LEVEL3, HIGH_LEVEL, LOW_LEVEL1, HIGH_LEVEL,
      LOW_LEVEL4, HIGH_LEVEL, LOW_LEVEL3, HIGH_LEVEL,
      LOW_LEVEL1]"

definition g_ascii_C :: "Pulse_Level list" where
  "g_ascii_C =
     [HIGH_LEVEL, LOW_LEVEL4, HIGH_LEVEL, LOW_LEVEL3,
      HIGH_LEVEL, LOW_LEVEL3, HIGH_LEVEL, LOW_LEVEL3,
      HIGH_LEVEL, LOW_LEVEL1, HIGH_LEVEL, LOW_LEVEL4,
      HIGH_LEVEL, LOW_LEVEL3, HIGH_LEVEL, LOW_LEVEL3,
      HIGH_LEVEL, LOW_LEVEL3, HIGH_LEVEL, LOW_LEVEL1,
      HIGH_LEVEL, LOW_LEVEL3, HIGH_LEVEL, LOW_LEVEL3]"

definition g_ascii_N :: "Pulse_Level list" where
  "g_ascii_N =
     [LOW_LEVEL2, HIGH_LEVEL, LOW_LEVEL1, HIGH_LEVEL,
      LOW_LEVEL4, HIGH_LEVEL, LOW_LEVEL3, HIGH_LEVEL,
      LOW_LEVEL3, HIGH_LEVEL, LOW_LEVEL1, HIGH_LEVEL,
      LOW_LEVEL4, HIGH_LEVEL, LOW_LEVEL3, HIGH_LEVEL,
      LOW_LEVEL1, HIGH_LEVEL, LOW_LEVEL3, HIGH_LEVEL,
      LOW_LEVEL3, HIGH_LEVEL, LOW_LEVEL4, HIGH_LEVEL,
      LOW_LEVEL1]"

definition g_ascii_G :: "Pulse_Level list" where
  "g_ascii_G =
     [HIGH_LEVEL, LOW_LEVEL3, HIGH_LEVEL, LOW_LEVEL3,
      HIGH_LEVEL, LOW_LEVEL4, HIGH_LEVEL, LOW_LEVEL3,
      HIGH_LEVEL, LOW_LEVEL1, HIGH_LEVEL, LOW_LEVEL4,
      HIGH_LEVEL, LOW_LEVEL3, HIGH_LEVEL, LOW_LEVEL3,
      HIGH_LEVEL, LOW_LEVEL1, HIGH_LEVEL, LOW_LEVEL3,
      HIGH_LEVEL, LOW_LEVEL3, HIGH_LEVEL, LOW_LEVEL3]"

definition g_ascii_DEL :: "Pulse_Level list" where
  "g_ascii_DEL =
     [LOW_LEVEL2, HIGH_LEVEL, LOW_LEVEL3, HIGH_LEVEL,
      LOW_LEVEL3, HIGH_LEVEL, LOW_LEVEL1, HIGH_LEVEL,
      LOW_LEVEL4, HIGH_LEVEL, LOW_LEVEL1, HIGH_LEVEL,
      LOW_LEVEL3, HIGH_LEVEL, LOW_LEVEL3, HIGH_LEVEL,
      LOW_LEVEL3, HIGH_LEVEL, LOW_LEVEL3, HIGH_LEVEL,
      LOW_LEVEL3, HIGH_LEVEL, LOW_LEVEL3, HIGH_LEVEL,
      LOW_LEVEL3]"

definition g_half_start_bits :: "Pulse_Level list" where
  "g_half_start_bits =
     [HIGH_LEVEL, LOW_LEVEL1, HIGH_LEVEL, LOW_LEVEL1,
      HIGH_LEVEL, LOW_LEVEL1]"

definition g_start_cmd :: "Pulse_Level list list" where
  "g_start_cmd = [g_ascii_ESC, g_ascii_DP]"

definition g_stop_cmd :: "Pulse_Level list list" where
  "g_stop_cmd = [g_ascii_FF, g_ascii_EOT]"

definition g_get_couter_cmd :: "Pulse_Level list list" where
  "g_get_couter_cmd =
     [g_ascii_Y, g_ascii_P, g_ascii_3, g_ascii_M, g_ascii_I, g_ascii_O, g_ascii_F]"

definition g_clean_memory_cmd :: "Pulse_Level list list" where
  "g_clean_memory_cmd = [g_ascii_C, g_ascii_N, g_ascii_F, g_ascii_G, g_ascii_DEL]"

text \<open>The length tables hold \<^verbatim>\<open>sizeof\<close> of each frame, an array of bytes.\<close>

definition g_start_cmd_len :: "nat list" where
  "g_start_cmd_len = [length g_ascii_ESC, length g_ascii_DP]"

definition g_stop_cmd_len :: "nat list" where
  "g_stop_cmd_len = [length g_ascii_FF, length g_ascii_EOT]"

definition g_get_counter_cmd_len :: "nat list" where
  "g_get_counter_cmd_len =
     [length g_ascii_Y, length g_ascii_P, length g_ascii_3, length g_ascii_M,
      length g_ascii_I, length g_ascii_O, length g_ascii_F]"

definition g_clean_memory_cmd_len :: "nat list" where
  "g_clean_memory_cmd_len =
     [length g_ascii_C, length g_ascii_N, length g_ascii_F, length g_ascii_G,
      length g_ascii_DEL]"

subsection \<open>Driving the line\<close>

text \<open>What the emitter does to the outside is a sequence of writes to PORTD and of
  busy waits.\<close>

datatype action = Write_PORTD "8 word" | Delay_us rat | Delay_ms rat

text \<open>The first loop of \<open>frame_transmission\<close> reads \<^verbatim>\<open>*half_start_bits++\<close> and runs
  while \<^verbatim>\<open>i < sizeof(half_start_bits)\<close>. No declaration of that name is in src/, and
  none is local to the function: the post-increment makes it a pointer that lives outside
  the function, so that it keeps what a frame adds to it, and \<^verbatim>\<open>sizeof\<close> of it is the size
  of a pointer, which is 2 on the AVR that the file is written for. The only table of
  preamble levels in the source is \<open>g_half_start_bits\<close>; the pointer is kept as its
  offset from the first entry of that table, and where it stands before the first frame
  is left open. Reading at an offset past the table is undefined in C; the model stops
  there, keeping what was put on the line before.\<close>

record emitter =
  PORTD :: "8 word"
  half_start_bits :: nat

definition sizeof_half_start_bits :: nat where
  "sizeof_half_start_bits = 2"

datatype emitter_error = Preamble_overrun nat

text \<open>A routine takes the state and returns the actions it performs together with
  the state it leaves, or the error it stopped at.\<close>

type_synonym emission = "action list \<times> (emitter_error + emitter)"

definition then_emit :: "(emitter \<Rightarrow> emission) \<Rightarrow> (emitter \<Rightarrow> emission) \<Rightarrow> emitter \<Rightarrow> emission" where
  "then_emit f g s =
     (case f s of
        (xs, Inl e) \<Rightarrow> (xs, Inl e)
      | (xs, Inr s1) \<Rightarrow> (case g s1 of (ys, r) \<Rightarrow> (xs @ ys, r)))"

definition delay_us :: "rat \<Rightarrow> emitter \<Rightarrow> emission" where
  "delay_us d s = ([Delay_us d], Inr s)"

definition delay_ms :: "rat \<Rightarrow> emitter \<Rightarrow> emission" where
  "delay_ms d s = ([Delay_ms d], Inr s)"

text \<open>The emitter sets and clears the LED pin with \<^verbatim>\<open>_setBit\<close> and \<^verbatim>\<open>_clearBit\<close>;
  bitwiseop.h spells the two macros \<^verbatim>\<open>_set_bit\<close> and \<^verbatim>\<open>_clear_bit\<close>. The direction
  register that \<open>IR_Emitter_init\<close> also sets is left out.\<close>

definition IR_Emitter_init :: "emitter \<Rightarrow> emitter" where
  "IR_Emitter_init s = s\<lparr>PORTD := clear_bit_byte (PORTD s) IR_LED\<rparr>"

text \<open>The loop over \<open>cycles\<close> in the \<open>HIGH_LEVEL\<close> case; \<open>n\<close> is the number of
  iterations left.\<close>

fun burst_cycles :: "nat \<Rightarrow> emitter \<Rightarrow> emission" where
  "burst_cycles 0 s = ([], Inr s)"
| "burst_cycles (Suc n) s =
     (let s1 = s\<lparr>PORTD := set_bit_byte (PORTD s) IR_LED\<rparr>;
          s2 = s1\<lparr>PORTD := clear_bit_byte (PORTD s1) IR_LED\<rparr>
      in case burst_cycles n s2 of (xs, r) \<Rightarrow>
           (Write_PORTD (PORTD s1) # Delay_us (PERIOD / 2) #
            Write_PORTD (PORTD s2) # Delay_us (PERIOD / 2) # xs, r))"

fun ir_led_transmission :: "Pulse_Level \<Rightarrow> emitter \<Rightarrow> emission" where
  "ir_led_transmission HIGH_LEVEL s = burst_cycles CYCLES s"
| "ir_led_transmission LOW_LEVEL1 s = delay_us LOW_LEVEL1_TIME s"
| "ir_led_transmission LOW_LEVEL2 s = delay_us LOW_LEVEL2_TIME s"
| "ir_led_transmission LOW_LEVEL3 s = delay_us LOW_LEVEL3_TIME s"
| "ir_led_transmission LOW_LEVEL4 s = delay_us LOW_LEVEL4_TIME s"

text \<open>The first loop of \<open>frame_transmission\<close>, with \<open>n\<close> iterations left: it reads
  the level the pointer stands at, moves the pointer on, and hands the level to
  \<open>ir_led_transmission\<close>.\<close>

fun half_start_loop :: "nat \<Rightarrow> emitter \<Rightarrow> emission" where
  "half_start_loop 0 s = ([], Inr s)"
| "half_start_loop (Suc n) s =
     (let k = half_start_bits s in
      if k < length g_half_start_bits then
        then_emit (ir_led_transmission (g_half_start_bits ! k)) (half_start_loop n)
          (s\<lparr>half_start_bits := k + 1\<rparr>)
      else ([], Inl (Preamble_overrun k)))"

text \<open>The second loop, over the levels of the frame; \<open>data_frame\<close> is a parameter of
  the function, so that what the loop adds to it ends with the call.\<close>

fun levels_loop :: "Pulse_Level list \<Rightarrow> emitter \<Rightarrow> emission" where
  "levels_loop [] s = ([], Inr s)"
| "levels_loop (level # levels) s =
     then_emit (ir_led_transmission level) (levels_loop levels) s"

definition frame_transmission :: "Pulse_Level list \<Rightarrow> nat \<Rightarrow> emitter \<Rightarrow> emission" where
  "frame_transmission data_frame len =
     then_emit (half_start_loop sizeof_half_start_bits)
       (then_emit (levels_loop (take len data_frame)) (delay_ms STOP_TIME))"

fun frames_loop :: "nat list \<Rightarrow> Pulse_Level list list \<Rightarrow> nat list \<Rightarrow> emitter \<Rightarrow> emission" where
  "frames_loop [] frames frames_length s = ([], Inr s)"
| "frames_loop (i # is) frames frames_length s =
     then_emit (frame_transmission (frames ! i) (frames_length ! i))
       (frames_loop is frames frames_length) s"

definition command_transmission :: "Pulse_Level list list \<Rightarrow> nat list \<Rightarrow> nat \<Rightarrow> emitter \<Rightarrow> emission" where
  "command_transmission frames frames_length num_frames =
     frames_loop [0..<num_frames] frames frames_length"

text \<open>The \<open>GET_COUNTER\<close> case names its length table \<^verbatim>\<open>g_get_couter_cmd_len\<close>; the
  table declared in the source is \<open>g_get_counter_cmd_len\<close>.\<close>

definition IR_send_request :: "8 word \<Rightarrow> emitter \<Rightarrow> emission" where
  "IR_send_request command =
     then_emit (command_transmission g_start_cmd g_start_cmd_len (length g_start_cmd_len))
       (then_emit (delay_ms START_TIME)
          (then_emit
             (if command = GET_COUNTER then
                command_transmission g_get_couter_cmd g_get_counter_cmd_len
                  (length g_get_counter_cmd_len)
              else if command = CLEAN_MEMORY then
                command_transmission g_clean_memory_cmd g_clean_memory_cmd_len
                  (length g_clean_memory_cmd_len)
              else (\<lambda>s. ([], Inr s)))
             (command_transmission g_stop_cmd g_stop_cmd_len (length g_stop_cmd_len))))"

subsection \<open>The transmission as the specification words it\<close>

text \<open>With \<open>p\<close> in PORTD, the line is on when the register holds \<open>line_on p\<close>
  (bit 4, the LED, set) and off when it holds \<open>line_off p\<close> (bit 4 cleared). A Burst
  is eight periods of the carrier, the line on for half a period and off for the other
  half; the four low levels hold the line off for their durations.\<close>

definition line_on :: "8 word \<Rightarrow> 8 word" where
  "line_on p = p OR 16"

definition line_off :: "8 word \<Rightarrow> 8 word" where
  "line_off p = p AND NOT 16"

definition Burst :: "8 word \<Rightarrow> action list" where
  "Burst p =
     concat (replicate 8
       [Write_PORTD (line_on p), Delay_us 15.15, Write_PORTD (line_off p), Delay_us 15.15])"

fun pulse_on_line :: "8 word \<Rightarrow> Pulse_Level \<Rightarrow> action list" where
  "pulse_on_line p HIGH_LEVEL = Burst p"
| "pulse_on_line p LOW_LEVEL1 = [Delay_us 184.85]"
| "pulse_on_line p LOW_LEVEL2 = [Delay_us 427.25]"
| "pulse_on_line p LOW_LEVEL3 = [Delay_us 612.1]"
| "pulse_on_line p LOW_LEVEL4 = [Delay_us 1039.35]"

text \<open>A frame on the line: three times (Burst, ShortLow), the pulses of the character,
  and the inter-frame delay of 2.84 ms.\<close>

definition frame_on_line :: "8 word \<Rightarrow> Pulse_Level list \<Rightarrow> action list" where
  "frame_on_line p character =
     concat (map (pulse_on_line p)
       ([HIGH_LEVEL, LOW_LEVEL1, HIGH_LEVEL, LOW_LEVEL1, HIGH_LEVEL, LOW_LEVEL1] @ character))
     @ [Delay_ms 2.84]"

text \<open>The clean-memory transmission on the line: the start frames, the start-up delay
  of 31.95 ms, the five frames of the request and the stop frames.\<close>

definition clean_memory_on_line :: "8 word \<Rightarrow> action list" where
  "clean_memory_on_line p =
     frame_on_line p g_ascii_ESC @ frame_on_line p g_ascii_DP @
     [Delay_ms 31.95] @
     frame_on_line p g_ascii_C @ frame_on_line p g_ascii_N @
     frame_on_line p g_ascii_F @ frame_on_line p g_ascii_G @
     frame_on_line p g_ascii_DEL @
     frame_on_line p g_ascii_FF @ frame_on_line p g_ascii_EOT"

text \<open>For comparison, a frame with (Burst, ShortLow) once before the pulses of the
  character.\<close>

definition short_frame_on_line :: "8 word \<Rightarrow> Pulse_Level list \<Rightarrow> action list" where
  "short_frame_on_line p character =
     concat (map (pulse_on_line p) ([HIGH_LEVEL, LOW_LEVEL1] @ character)) @ [Delay_ms 2.84]"

section \<open>Properties of the receiver\<close>

subsection \<open>Pulse-width classification\<close>


subsection \<open>What a decode changes, and when it leaves the data buffer\<close>

lemma decoded_from_refl: "decoded_from s s"
  by (simp add: decoded_from_def)

lemma decoded_from_trans: "decoded_from s s' \<Longrightarrow> decoded_from s' s'' \<Longrightarrow> decoded_from s s''"
  by (simp add: decoded_from_def)

lemma decoded_from_last_event: "decoded_from s s' \<Longrightarrow> decoded_from s (s'\<lparr>g_last_event := t\<rparr>)"
  by (simp add: decoded_from_def)

lemma low7_set: "take_bit 7 (set_bit_byte x 7) = take_bit 7 x"
  unfolding set_bit_byte_def BV_def
  by (rule bit_word_eqI) (auto simp: bit_simps)

lemma low7_clear: "take_bit 7 (clear_bit_byte x 7) = take_bit 7 x"
proof -
  have "NOT (push_bit (unat (7 :: 8 word)) 1) = (mask 7 :: 8 word)"
    by (simp add: mask_eq_exp_minus_1)
  then have "clear_bit_byte x 7 = take_bit 7 x"
    by (simp only: clear_bit_byte_def BV_def take_bit_eq_mask)
  then show ?thesis by simp
qed

lemma write_bit_7_decoded:
  assumes "write_bit 7 l s = Inr s'"
  shows "decoded_from s s'"
proof -
  let ?k = "unat (g_byte_cnt s)"
  let ?xs = "g_data_buffer s"
  let ?v = "if l then set_bit_byte (?xs ! ?k) 7 else clear_bit_byte (?xs ! ?k) 7"
  from assms have s': "s' = s\<lparr>g_data_buffer := ?xs[?k := ?v]\<rparr>"
    by (simp add: write_bit_def Let_def split: if_splits)
  have v: "take_bit 7 ?v = take_bit 7 (?xs ! ?k)"
    by (simp add: low7_set low7_clear)
  have "map (take_bit 7) (?xs[?k := ?v]) = map (take_bit 7) ?xs"
  proof (cases "?k < length ?xs")
    case True
    then show ?thesis
      by (simp add: map_update v list_update_same_conv)
  next
    case False
    then show ?thesis by (simp add: list_update_beyond)
  qed
  with s' show ?thesis
    by (simp add: decoded_from_def)
qed


lemma find_bit_position_23: "find_bit_position EIGHTH_BIT_POS l s = write_bit 7 l s"
  by (simp add: find_bit_position_def FIRST_BIT_POS_def SECOND_BIT_POS_def THIRD_BIT_POS_def
        FOURTH_BIT_POS_def FIFTH_BIT_POS_def SIXTH_BIT_POS_def SEVENTH_BIT_POS_def
        EIGHTH_BIT_POS_def)

lemma quater_loop_decoded:
  "quater_loop n st ec s = Inr (ec', s') \<Longrightarrow> decoded_from s s'"
proof (induction n arbitrary: ec s)
  case 0
  then show ?case by (simp add: decoded_from_refl)
next
  case (Suc n)
  show ?case
  proof (cases "ec = EIGHTH_BIT_POS")
    case True
    with Suc.prems obtain s1 where w: "write_bit 7 st s = Inr s1"
      and r: "quater_loop n st (ec + 1) s1 = Inr (ec', s')"
      by (auto simp: find_bit_position_23 split: sum.splits)
    from write_bit_7_decoded [OF w] Suc.IH [OF r] show ?thesis
      by (rule decoded_from_trans)
  next
    case False
    with Suc.prems have "quater_loop n st (ec + 1) s = Inr (ec', s')"
      by simp
    then show ?thesis by (rule Suc.IH)
  qed
qed


lemma decode_edge_decoded:
  "decode_edge i (ls, s) = Inr (ls', s') \<Longrightarrow> decoded_from s s'"
  by (auto simp: decode_edge_def Let_def decoded_from_refl
      split: prod.splits if_splits sum.splits
      intro!: decoded_from_last_event dest: quater_loop_decoded)


lemma decode_edges_decoded:
  "decode_edges ixs (ls, s) = Inr (ls', s') \<Longrightarrow> decoded_from s s'"
proof (induction ixs arbitrary: ls s)
  case Nil
  then show ?case by (simp add: decoded_from_refl)
next
  case (Cons i ixs)
  from Cons.prems obtain ls1 s1 where a: "decode_edge i (ls, s) = Inr (ls1, s1)"
    and b: "decode_edges ixs (ls1, s1) = Inr (ls', s')"
    by (auto split: sum.splits)
  from decode_edge_decoded [OF a] Cons.IH [OF b] show ?case
    by (rule decoded_from_trans)
qed


lemma update_data_buffer_decoded:
  "update_data_buffer s = Inr s' \<Longrightarrow> decoded_from s s'"
  by (auto simp: update_data_buffer_def split: sum.splits prod.splits dest: decode_edges_decoded)


subsection \<open>Sequences of interrupts\<close>

lemma interrupts_append:
  "interrupts (xs @ ys) s =
     (case interrupts xs s of Inl e \<Rightarrow> Inl e | Inr s' \<Rightarrow> interrupts ys s')"
  by (induction xs arbitrary: s) (auto split: sum.splits)

lemma index_next: "k < 30 \<Longrightarrow> ((of_nat k :: 8 word) + 1 = 30) = (k = 29)"
proof -
  assume k: "k < 30"
  then have u: "unat ((of_nat k :: 8 word) + 1) = Suc k"
    by (simp add: unat_word_ariths unat_of_nat)
  have "((of_nat k :: 8 word) + 1 = 30) = (unat ((of_nat k :: 8 word) + 1) = unat (30 :: 8 word))"
    by (simp only: word_unat_eq_iff)
  with u show ?thesis by simp
qed

lemma capture_step:
  assumes "g_event_buffer_index s = of_nat k" and "k < 30"
  shows "\<exists>s'. ISR_TIMER1_CAPT_vect h l s = Inr s'
     \<and> g_event_buffer s' = (g_event_buffer s)[k := g_virtual_cnt s + ucast (timer_value_of h l)]
     \<and> g_event_buffer_index s' = (if k = 29 then 0 else of_nat (Suc k))
     \<and> g_byte_cnt s' = (if k = 29 then g_byte_cnt s + 1 else g_byte_cnt s)
     \<and> g_is_event_buffer_full s' = (k = 29 \<or> g_is_event_buffer_full s)
     \<and> g_virtual_cnt s' = g_virtual_cnt s
     \<and> g_data_buffer s' = g_data_buffer s
     \<and> g_last_event s' = g_last_event s
     \<and> length (g_event_buffer s') = length (g_event_buffer s)"
proof -
  from assms have "unat (g_event_buffer_index s) = k"
    by (simp add: unat_of_nat)
  with assms index_next [of k] show ?thesis
    by (simp add: ISR_TIMER1_CAPT_vect_def Let_def EVENT_BUFFER_SIZE_def)
qed

lemma interrupts_snoc:
  "interrupts (xs @ [x]) s =
     (case interrupts xs s of Inl e \<Rightarrow> Inl e | Inr s' \<Rightarrow> interrupt_step x s')"
  by (simp add: interrupts_append split: sum.splits)

lemma count_simps:
  "count_captures [] = 0" "count_overflows [] = 0"
  "count_captures (xs @ [Overflow]) = count_captures xs"
  "count_overflows (xs @ [Overflow]) = Suc (count_overflows xs)"
  "count_captures (xs @ [Capture h l]) = Suc (count_captures xs)"
  "count_overflows (xs @ [Capture h l]) = count_overflows xs"
  by (simp_all add: count_captures_def count_overflows_def)

lemma full_next: "(n mod 30 = 29 \<or> 30 \<le> n) = (30 \<le> Suc n)" for n :: nat
  by (cases "n < 30") auto

lemma interrupts_invariant:
  "\<exists>s. interrupts xs initialised = Inr s
     \<and> g_event_buffer_index s = of_nat (count_captures xs mod 30)
     \<and> g_byte_cnt s = of_nat (count_captures xs div 30)
     \<and> g_is_event_buffer_full s = (30 \<le> count_captures xs)
     \<and> g_virtual_cnt s = of_nat (count_overflows xs) * 0x10000
     \<and> g_data_buffer s = replicate DATA_BUFFER_SIZE 0
     \<and> length (g_event_buffer s) = EVENT_BUFFER_SIZE"
proof (induction xs rule: rev_induct)
  case Nil
  show ?case
    by (simp add: count_simps initialised_def IR_Reciever_init_def TIMER1_init_def power_on_def)
next
  case (snoc x xs)
  then obtain s where s: "interrupts xs initialised = Inr s"
    and i: "g_event_buffer_index s = of_nat (count_captures xs mod 30)"
    and c: "g_byte_cnt s = of_nat (count_captures xs div 30)"
    and f: "g_is_event_buffer_full s = (30 \<le> count_captures xs)"
    and v: "g_virtual_cnt s = of_nat (count_overflows xs) * 0x10000"
    and d: "g_data_buffer s = replicate DATA_BUFFER_SIZE 0"
    and n: "length (g_event_buffer s) = EVENT_BUFFER_SIZE"
    by blast
  show ?case
  proof (cases x)
    case Overflow
    with s i c f v d n show ?thesis
      by (simp add: interrupts_snoc count_simps ISR_TIMER1_OVF_vect_def algebra_simps)
  next
    case (Capture h l)
    have k: "count_captures xs mod 30 < 30" by simp
    from capture_step [OF i k, of h l] obtain s'
      where s': "ISR_TIMER1_CAPT_vect h l s = Inr s'"
        and i': "g_event_buffer_index s' =
                   (if count_captures xs mod 30 = 29 then 0 else of_nat (Suc (count_captures xs mod 30)))"
        and c': "g_byte_cnt s' =
                   (if count_captures xs mod 30 = 29 then g_byte_cnt s + 1 else g_byte_cnt s)"
        and f': "g_is_event_buffer_full s' = (count_captures xs mod 30 = 29 \<or> g_is_event_buffer_full s)"
        and v': "g_virtual_cnt s' = g_virtual_cnt s"
        and d': "g_data_buffer s' = g_data_buffer s"
        and n': "length (g_event_buffer s') = length (g_event_buffer s)"
      by blast
    have "interrupts (xs @ [x]) initialised = Inr s'"
      using s s' Capture by (simp add: interrupts_snoc)
    moreover have "g_event_buffer_index s' = of_nat (count_captures (xs @ [x]) mod 30)"
      using i' Capture by (simp add: count_simps mod_Suc)
    moreover have "g_byte_cnt s' = of_nat (count_captures (xs @ [x]) div 30)"
      using c' c Capture by (simp add: count_simps div_Suc mod_Suc)
    moreover have "g_is_event_buffer_full s' = (30 \<le> count_captures (xs @ [x]))"
      using f' f Capture by (simp add: count_simps full_next)
    moreover have "g_virtual_cnt s' = of_nat (count_overflows (xs @ [x])) * 0x10000"
      using v' v Capture by (simp add: count_simps)
    moreover have "g_data_buffer s' = replicate DATA_BUFFER_SIZE 0"
      using d' d by simp
    moreover have "length (g_event_buffer s') = EVENT_BUFFER_SIZE"
      using n' n by simp
    ultimately show ?thesis by blast
  qed
qed


lemma count_overflows_append:
  "count_overflows (xs @ ys) = count_overflows xs + count_overflows ys"
  by (simp add: count_overflows_def)

lemma count_overflows_only:
  "count_overflows (replicate n Overflow) = n"
  by (simp add: count_overflows_def)

lemma unat_index: "unat (of_nat (n mod 30) :: 8 word) = n mod 30"
proof -
  have "n mod 30 < 256"
    by (rule less_trans [of _ 30]) simp_all
  then show ?thesis by (simp add: unat_of_nat)
qed

lemma unat_timer_value: "unat (ucast t :: 64 word) = unat t" for t :: "16 word"
proof -
  have "unat t < 2 ^ 64"
    using unsigned_less [of t, where 'a = nat] by simp
  then show ?thesis
    by (simp add: unsigned_ucast_eq take_bit_nat_eq_self)
qed

lemma unat_virtual_cnt:
  assumes "n < 2 ^ 48"
  shows "unat (of_nat n * 0x10000 :: 64 word) = 2 ^ 16 * n"
proof -
  from assms have b: "n * 65536 < 2 ^ 64" by simp
  have "of_nat n * 0x10000 = (of_nat (n * 65536) :: 64 word)" by simp
  then have "unat (of_nat n * 0x10000 :: 64 word) = unat (of_nat (n * 65536) :: 64 word)"
    by (rule arg_cong)
  also have "\<dots> = (n * 65536) mod 2 ^ LENGTH(64)"
    by (rule unat_of_nat)
  also have "\<dots> = 2 ^ 16 * n"
    using b by simp
  finally show ?thesis .
qed

lemma IR_is_data_available_virtual_cnt:
  "IR_is_data_available s = Inr (status, s') \<Longrightarrow> g_virtual_cnt s' = g_virtual_cnt s"
  by (auto simp: IR_is_data_available_def decoded_from_def
      split: if_splits sum.splits dest!: update_data_buffer_decoded)

lemma full_after: "(n mod 30 = 29 \<or> f \<or> 30 \<le> n) = (f \<or> 30 \<le> Suc n)" for n :: nat
  by (cases "n < 30") auto

lemma captures_from:
  assumes "g_event_buffer_index s0 = of_nat j" and "j < 30"
  shows "\<exists>s. interrupts (map (\<lambda>(h, l). Capture h l) cs) s0 = Inr s
     \<and> g_event_buffer_index s = of_nat ((j + length cs) mod 30)
     \<and> g_byte_cnt s = g_byte_cnt s0 + of_nat ((j + length cs) div 30)
     \<and> g_is_event_buffer_full s = (g_is_event_buffer_full s0 \<or> 30 \<le> j + length cs)
     \<and> g_data_buffer s = g_data_buffer s0
     \<and> g_last_event s = g_last_event s0
     \<and> length (g_event_buffer s) = length (g_event_buffer s0)"
proof (induction cs rule: rev_induct)
  case Nil
  from assms show ?case by simp
next
  case (snoc c cs)
  obtain h l where c: "c = (h, l)" by (cases c)
  let ?n = "j + length cs"
  from snoc obtain s where s: "interrupts (map (\<lambda>(h, l). Capture h l) cs) s0 = Inr s"
    and i: "g_event_buffer_index s = of_nat (?n mod 30)"
    and b: "g_byte_cnt s = g_byte_cnt s0 + of_nat (?n div 30)"
    and f: "g_is_event_buffer_full s = (g_is_event_buffer_full s0 \<or> 30 \<le> ?n)"
    and d: "g_data_buffer s = g_data_buffer s0"
    and e: "g_last_event s = g_last_event s0"
    and n: "length (g_event_buffer s) = length (g_event_buffer s0)"
    by blast
  have k: "?n mod 30 < 30" by simp
  from capture_step [OF i k, of h l] obtain s'
    where s': "ISR_TIMER1_CAPT_vect h l s = Inr s'"
      and i': "g_event_buffer_index s' =
                 (if ?n mod 30 = 29 then 0 else of_nat (Suc (?n mod 30)))"
      and b': "g_byte_cnt s' = (if ?n mod 30 = 29 then g_byte_cnt s + 1 else g_byte_cnt s)"
      and f': "g_is_event_buffer_full s' = (?n mod 30 = 29 \<or> g_is_event_buffer_full s)"
      and d': "g_data_buffer s' = g_data_buffer s"
      and e': "g_last_event s' = g_last_event s"
      and n': "length (g_event_buffer s') = length (g_event_buffer s)"
    by blast
  have "interrupts (map (\<lambda>(h, l). Capture h l) (cs @ [c])) s0 = Inr s'"
    using s s' c by (simp add: interrupts_snoc)
  moreover have "g_event_buffer_index s' = of_nat ((j + length (cs @ [c])) mod 30)"
    using i' by (simp add: mod_Suc)
  moreover have "g_byte_cnt s' = g_byte_cnt s0 + of_nat ((j + length (cs @ [c])) div 30)"
    using b' b by (simp add: div_Suc mod_Suc)
  moreover have "g_is_event_buffer_full s' =
      (g_is_event_buffer_full s0 \<or> 30 \<le> j + length (cs @ [c]))"
    using f' f full_after [of ?n "g_is_event_buffer_full s0"] by simp
  moreover have "g_data_buffer s' = g_data_buffer s0" "g_last_event s' = g_last_event s0"
    "length (g_event_buffer s') = length (g_event_buffer s0)"
    using d d' e e' n n' by simp_all
  ultimately show ?case by blast
qed

text \<open>C7, as amended. Take the receiver in any state whose window index is \<open>j\<close>, below
  30, and let any sequence \<open>cs\<close> of capture interrupts arrive. The index is then
  \<open>(j + length cs) mod 30\<close>, the byte counter has grown by \<open>(j + length cs) div 30\<close> (as an
  8-bit value), and the full flag is set exactly when it was set before or the index has
  reached 30 on the way. One more capture stores its timestamp, the virtual counter plus
  the captured timer value, in the slot at the index and changes no other slot; when that
  was slot 29 it resets the index to 0, sets the full flag and adds 1 to the byte counter
  (modulo 256), and otherwise it adds 1 to the index and leaves flag and counter alone.
  If the flag was clear and the window has received fewer than 30 captures, the flag is
  still clear and a poll decodes nothing: it only tests the counter.\<close>

theorem capture_bookkeeping:
  assumes "g_event_buffer_index s0 = of_nat j" and "j < 30"
  shows "\<exists>s s'. interrupts (map (\<lambda>(h, l). Capture h l) cs) s0 = Inr s
     \<and> ISR_TIMER1_CAPT_vect ICR1H ICR1L s = Inr s'
     \<and> unat (g_event_buffer_index s) = (j + length cs) mod 30
     \<and> g_byte_cnt s = g_byte_cnt s0 + of_nat ((j + length cs) div 30)
     \<and> g_is_event_buffer_full s = (g_is_event_buffer_full s0 \<or> 30 \<le> j + length cs)
     \<and> g_event_buffer s' =
         (g_event_buffer s)[(j + length cs) mod 30 :=
            g_virtual_cnt s + ucast (timer_value_of ICR1H ICR1L)]
     \<and> (if (j + length cs) mod 30 = 29
         then g_event_buffer_index s' = 0 \<and> g_is_event_buffer_full s'
              \<and> g_byte_cnt s' = g_byte_cnt s + 1
         else g_event_buffer_index s' = g_event_buffer_index s + 1
              \<and> g_is_event_buffer_full s' = g_is_event_buffer_full s
              \<and> g_byte_cnt s' = g_byte_cnt s)
     \<and> (\<not> g_is_event_buffer_full s0 \<and> j + length cs < 30 \<longrightarrow>
           \<not> g_is_event_buffer_full s
           \<and> IR_is_data_available s =
               Inr (if g_byte_cnt s = 12 then (True, s\<lparr>g_byte_cnt := 0\<rparr>) else (False, s)))"
proof -
  let ?n = "j + length cs"
  from captures_from [OF assms, of cs] obtain s
    where s: "interrupts (map (\<lambda>(h, l). Capture h l) cs) s0 = Inr s"
      and i: "g_event_buffer_index s = of_nat (?n mod 30)"
      and c: "g_byte_cnt s = g_byte_cnt s0 + of_nat (?n div 30)"
      and f: "g_is_event_buffer_full s = (g_is_event_buffer_full s0 \<or> 30 \<le> ?n)"
    by blast
  have k: "?n mod 30 < 30" by simp
  from capture_step [OF i k, of ICR1H ICR1L] obtain s'
    where s': "ISR_TIMER1_CAPT_vect ICR1H ICR1L s = Inr s'"
      and b': "g_event_buffer s' =
                 (g_event_buffer s)[?n mod 30 :=
                    g_virtual_cnt s + ucast (timer_value_of ICR1H ICR1L)]"
      and i': "g_event_buffer_index s' =
                 (if ?n mod 30 = 29 then 0 else of_nat (Suc (?n mod 30)))"
      and c': "g_byte_cnt s' = (if ?n mod 30 = 29 then g_byte_cnt s + 1 else g_byte_cnt s)"
      and f': "g_is_event_buffer_full s' = (?n mod 30 = 29 \<or> g_is_event_buffer_full s)"
    by blast
  have u: "unat (g_event_buffer_index s) = ?n mod 30"
    using i by (simp only: unat_index)
  have st: "if ?n mod 30 = 29
         then g_event_buffer_index s' = 0 \<and> g_is_event_buffer_full s'
              \<and> g_byte_cnt s' = g_byte_cnt s + 1
         else g_event_buffer_index s' = g_event_buffer_index s + 1
              \<and> g_is_event_buffer_full s' = g_is_event_buffer_full s
              \<and> g_byte_cnt s' = g_byte_cnt s"
    using i' c' f' i by simp
  have p: "\<not> g_is_event_buffer_full s0 \<and> ?n < 30 \<longrightarrow>
           \<not> g_is_event_buffer_full s
           \<and> IR_is_data_available s =
               Inr (if g_byte_cnt s = 12 then (True, s\<lparr>g_byte_cnt := 0\<rparr>) else (False, s))"
    using f by (simp add: IR_is_data_available_def DATA_BUFFER_SIZE_def)
  from s s' u c f b' st p show ?thesis by blast
qed

text \<open>The window after a poll: a first window is captured and polled, and then 29
  captures of the second arrive.\<close>

theorem capture_bookkeeping_witness:
  "\<exists>s0 s. run (map (\<lambda>t. Interrupt (capture_of t)) window_178 @ [Poll]) initialised = Inr s0
     \<and> interrupts (map (\<lambda>(h, l). Capture h l) (replicate 29 (0, 60))) s0 = Inr s
     \<and> \<not> g_is_event_buffer_full s
     \<and> IR_is_data_available s = Inr (False, s)"
proof -
  let ?es = "map (\<lambda>t. Interrupt (capture_of t)) window_178 @ [Poll]"
  have "map_sum id (\<lambda>s. (g_event_buffer_index s, g_is_event_buffer_full s, g_byte_cnt s))
          (run ?es initialised) = Inr (0, False, 1)"
    by code_simp
  then obtain s0 where s0: "run ?es initialised = Inr s0"
    and i: "g_event_buffer_index s0 = of_nat 0" and f: "\<not> g_is_event_buffer_full s0"
    and c: "g_byte_cnt s0 = 1"
    by (cases "run ?es initialised") auto
  have j: "(0 :: nat) < 30" by simp
  from capture_bookkeeping [OF i j, of "replicate 29 (0, 60)" 0 60] f c s0
  show ?thesis by auto
qed

text \<open>The flag of a completed window stays set until a poll clears it. After a full
  window and seventeen captures of the next, with no poll in between, the flag is set and
  the index is 17; a poll at that moment decodes the buffer, thirteen slots of which still
  hold the first window, and stores a byte.\<close>

theorem partly_captured_window_is_decoded:
  "map_sum id window_status (interrupts window_and_a_half initialised)
     = Inr (True, 17, [0, 0, 0, 0, 0, 0, 0, 0, 0, 0, 0, 0])
   \<and> map_sum id IR_get_data (run (map Interrupt window_and_a_half @ [Poll]) initialised)
     = Inr [0, 128, 0, 0, 0, 0, 0, 0, 0, 0, 0, 0]"
  by code_simp

subsection \<open>The virtual counter\<close>

text \<open>C8, as amended. Over every interleaving of overflow and capture interrupts on the
  initialised receiver that holds fewer than \<open>2 ^ 48\<close> overflows, the virtual counter
  never decreases: after any further events \<open>ys\<close> it has grown by exactly \<open>2 ^ 16\<close> for
  each overflow among them and by nothing else; an overflow adds \<open>2 ^ 16\<close> (modulo
  \<open>2 ^ 64\<close>), a capture and a completed poll leave the counter as it is, and the timestamp
  a capture stores is the virtual counter plus the 16-bit timer value, with no
  wrap-around.\<close>

theorem virtual_counter:
  assumes "count_overflows (xs @ ys) < 2 ^ 48"
  shows "\<exists>s1 s2 s3. interrupts xs initialised = Inr s1
     \<and> interrupts (xs @ ys) initialised = Inr s2
     \<and> unat (g_virtual_cnt s2) = unat (g_virtual_cnt s1) + 2 ^ 16 * count_overflows ys
     \<and> g_virtual_cnt s1 \<le> g_virtual_cnt s2
     \<and> g_virtual_cnt (ISR_TIMER1_OVF_vect s2) = g_virtual_cnt s2 + 2 ^ 16
     \<and> ISR_TIMER1_CAPT_vect ICR1H ICR1L s2 = Inr s3
     \<and> g_virtual_cnt s3 = g_virtual_cnt s2
     \<and> g_event_buffer s3 ! unat (g_event_buffer_index s2) =
           g_virtual_cnt s2 + ucast (timer_value_of ICR1H ICR1L)
     \<and> unat (g_event_buffer s3 ! unat (g_event_buffer_index s2)) =
           unat (g_virtual_cnt s2) + unat (timer_value_of ICR1H ICR1L)
     \<and> (case IR_is_data_available s2 of
           Inl e \<Rightarrow> True
         | Inr (status, s4) \<Rightarrow> g_virtual_cnt s4 = g_virtual_cnt s2)"
proof -
  let ?n1 = "count_overflows xs" and ?n2 = "count_overflows ys"
  from assms have b: "?n1 + ?n2 < 2 ^ 48" and b1: "?n1 < 2 ^ 48"
    by (simp_all add: count_overflows_append)
  from interrupts_invariant [of xs] obtain s1 where s1: "interrupts xs initialised = Inr s1"
    and v1: "g_virtual_cnt s1 = of_nat ?n1 * 0x10000"
    by blast
  from interrupts_invariant [of "xs @ ys"] obtain s2
    where s2: "interrupts (xs @ ys) initialised = Inr s2"
      and i2: "g_event_buffer_index s2 = of_nat (count_captures (xs @ ys) mod 30)"
      and v2: "g_virtual_cnt s2 = of_nat (?n1 + ?n2) * 0x10000"
      and n2: "length (g_event_buffer s2) = EVENT_BUFFER_SIZE"
    by (auto simp: count_overflows_append)
  have k: "count_captures (xs @ ys) mod 30 < 30" by simp
  from capture_step [OF i2 k, of ICR1H ICR1L] obtain s3
    where s3: "ISR_TIMER1_CAPT_vect ICR1H ICR1L s2 = Inr s3"
      and b3: "g_event_buffer s3 =
                 (g_event_buffer s2)[count_captures (xs @ ys) mod 30 :=
                    g_virtual_cnt s2 + ucast (timer_value_of ICR1H ICR1L)]"
      and v3: "g_virtual_cnt s3 = g_virtual_cnt s2"
    by blast
  have u1: "unat (g_virtual_cnt s1) = 2 ^ 16 * ?n1"
    using v1 unat_virtual_cnt [OF b1] by simp
  have u2: "unat (g_virtual_cnt s2) = 2 ^ 16 * (?n1 + ?n2)"
    using v2 unat_virtual_cnt [OF b] by simp
  have a: "unat (g_virtual_cnt s2) = unat (g_virtual_cnt s1) + 2 ^ 16 * ?n2"
    using u1 u2 by (simp add: algebra_simps)
  then have le: "g_virtual_cnt s1 \<le> g_virtual_cnt s2"
    by (simp add: word_le_nat_alt)
  have ui: "unat (g_event_buffer_index s2) = count_captures (xs @ ys) mod 30"
    using i2 by (simp only: unat_index)
  have t: "g_event_buffer s3 ! unat (g_event_buffer_index s2) =
             g_virtual_cnt s2 + ucast (timer_value_of ICR1H ICR1L)"
    using b3 n2 ui by (simp add: EVENT_BUFFER_SIZE_def)
  have "unat (timer_value_of ICR1H ICR1L) < 2 ^ 16"
    using unsigned_less [of "timer_value_of ICR1H ICR1L"] by simp
  moreover have "2 ^ 16 * (?n1 + ?n2) \<le> 2 ^ 16 * (2 ^ 48 - 1)"
    using b by simp
  ultimately have "unat (g_virtual_cnt s2) + unat (ucast (timer_value_of ICR1H ICR1L) :: 64 word)
      < 2 ^ LENGTH(64)"
    using u2 by (simp add: unat_timer_value)
  then have "unat (g_virtual_cnt s2 + ucast (timer_value_of ICR1H ICR1L))
      = unat (g_virtual_cnt s2) + unat (ucast (timer_value_of ICR1H ICR1L) :: 64 word)"
    by (simp only: unat_add_lem)
  then have tu: "unat (g_event_buffer s3 ! unat (g_event_buffer_index s2)) =
             unat (g_virtual_cnt s2) + unat (timer_value_of ICR1H ICR1L)"
    using t by (simp add: unat_timer_value)
  have o: "g_virtual_cnt (ISR_TIMER1_OVF_vect s2) = g_virtual_cnt s2 + 2 ^ 16"
    by (simp add: ISR_TIMER1_OVF_vect_def)
  have p: "case IR_is_data_available s2 of
           Inl e \<Rightarrow> True
         | Inr (status, s4) \<Rightarrow> g_virtual_cnt s4 = g_virtual_cnt s2"
    by (auto split: sum.splits dest: IR_is_data_available_virtual_cnt)
  from s1 s2 a le o s3 v3 t tu p show ?thesis by blast
qed

text \<open>One capture, then an overflow, a capture and another overflow.\<close>

theorem virtual_counter_witness:
  "\<exists>s1 s2. interrupts [Capture 0 60] initialised = Inr s1
     \<and> interrupts ([Capture 0 60] @ [Overflow, Capture 1 7, Overflow]) initialised = Inr s2
     \<and> unat (g_virtual_cnt s2) = unat (g_virtual_cnt s1) + 131072
     \<and> g_virtual_cnt s1 \<le> g_virtual_cnt s2"
proof -
  have "count_overflows ([Capture 0 60] @ [Overflow, Capture 1 7, Overflow]) < 2 ^ 48"
    by (simp add: count_overflows_def)
  from virtual_counter [OF this, of 0 0] show ?thesis
    by (auto simp: count_overflows_def)
qed

text \<open>The counter is a 64-bit word. After \<open>2 ^ 48 - 1\<close> overflows it holds
  \<open>2 ^ 64 - 2 ^ 16\<close>, and the next overflow takes it down to 0.\<close>

theorem virtual_counter_wraps:
  "map_sum id g_virtual_cnt (interrupts (replicate (2 ^ 48 - 1) Overflow) initialised)
     = Inr 0xFFFFFFFFFFFF0000
   \<and> map_sum id g_virtual_cnt (interrupts (replicate (2 ^ 48 - 1) Overflow @ [Overflow]) initialised)
     = Inr 0
   \<and> (0 :: 64 word) < 0xFFFFFFFFFFFF0000"
proof -
  let ?xs = "replicate (2 ^ 48 - 1) Overflow"
  from interrupts_invariant [of ?xs] obtain s where s: "interrupts ?xs initialised = Inr s"
    and v: "g_virtual_cnt s = of_nat (2 ^ 48 - 1) * 0x10000"
    by (auto simp: count_overflows_only)
  have "(of_nat (2 ^ 48 - 1) * 0x10000 :: 64 word) = 0xFFFFFFFFFFFF0000"
    by simp
  with s v show ?thesis
    by (simp add: interrupts_snoc ISR_TIMER1_OVF_vect_def)
qed

subsection \<open>The bits a reception can set\<close>

lemma capture_data_buffer:
  "ISR_TIMER1_CAPT_vect h l s = Inr s' \<Longrightarrow> g_data_buffer s' = g_data_buffer s"
  by (auto simp: ISR_TIMER1_CAPT_vect_def Let_def split: if_splits)

lemma IR_is_data_available_low_bits:
  "IR_is_data_available s = Inr (status, s') \<Longrightarrow>
     map (take_bit 7) (g_data_buffer s') = map (take_bit 7) (g_data_buffer s)"
  by (auto simp: IR_is_data_available_def decoded_from_def
      split: if_splits sum.splits dest!: update_data_buffer_decoded)

lemma handle_event_low_bits:
  "handle_event x s = Inr s' \<Longrightarrow>
     map (take_bit 7) (g_data_buffer s') = map (take_bit 7) (g_data_buffer s)"
proof (cases x)
  case (Interrupt y)
  assume "handle_event x s = Inr s'"
  with Interrupt show ?thesis
    by (cases y) (auto simp: ISR_TIMER1_OVF_vect_def dest: capture_data_buffer)
next
  case Poll
  assume "handle_event x s = Inr s'"
  with Poll show ?thesis
    by (auto split: sum.splits prod.splits dest: IR_is_data_available_low_bits)
qed

lemma run_low_bits:
  "run es s = Inr s' \<Longrightarrow>
     map (take_bit 7) (g_data_buffer s') = map (take_bit 7) (g_data_buffer s)"
proof (induction es arbitrary: s)
  case Nil
  then show ?case by simp
next
  case (Cons x es)
  from Cons.prems obtain s1 where a: "handle_event x s = Inr s1" and b: "run es s1 = Inr s'"
    by (auto split: sum.splits)
  from handle_event_low_bits [OF a] Cons.IH [OF b] show ?case by simp
qed

lemma initialised_data_buffer: "g_data_buffer initialised = replicate DATA_BUFFER_SIZE 0"
  by (simp add: initialised_def IR_Reciever_init_def TIMER1_init_def power_on_def)

text \<open>C2. The claim asks for an input that leaves 178 in the reception buffer. On the
  code there is none: \<open>update_data_buffer\<close> consults \<open>find_bit_position\<close> at count 23
  only, so a decode changes nothing but bit 7 of a byte, and the buffer starts zeroed.
  After any sequence of interrupts and polls that the initialised receiver completes,
  no byte of the buffer handed out by \<open>IR_get_data\<close> is 178.\<close>

theorem reception_buffer_never_178:
  assumes "run es initialised = Inr s"
  shows "178 \<notin> set (IR_get_data s)"
proof
  assume "178 \<in> set (IR_get_data s)"
  then have "178 \<in> set (g_data_buffer s)"
    by (simp only: IR_get_data_def)
  then have "take_bit 7 (178 :: 8 word) \<in> take_bit 7 ` set (g_data_buffer s)"
    by (rule imageI)
  then have "take_bit 7 (178 :: 8 word) \<in> set (map (take_bit 7) (g_data_buffer s))"
    by (simp only: set_map)
  also have "map (take_bit 7) (g_data_buffer s) = replicate DATA_BUFFER_SIZE 0"
    using run_low_bits [OF assms] by (simp add: initialised_data_buffer)
  finally show False
    by (simp add: DATA_BUFFER_SIZE_def)
qed

text \<open>The window that places the bits of \<open>0b10110010\<close> at the eight offsets, captured
  and polled: the decoder as the specification words it yields 178, the code stores 128,
  at index 1.\<close>

theorem reception_buffer_never_178_witness:
  "\<exists>s. run (map (\<lambda>t. Interrupt (capture_of t)) window_178 @ [Poll]) initialised = Inr s
     \<and> IR_get_data s = [0, 128, 0, 0, 0, 0, 0, 0, 0, 0, 0, 0]
     \<and> 178 \<notin> set (IR_get_data s)
     \<and> spec_decode (map ucast window_178) 0 = 178"
proof -
  let ?es = "map (\<lambda>t. Interrupt (capture_of t)) window_178 @ [Poll]"
  have "map_sum id IR_get_data (run ?es initialised) = Inr [0, 128, 0, 0, 0, 0, 0, 0, 0, 0, 0, 0]"
    by code_simp
  then obtain s where s: "run ?es initialised = Inr s"
    and d: "IR_get_data s = [0, 128, 0, 0, 0, 0, 0, 0, 0, 0, 0, 0]"
    by (cases "run ?es initialised") auto
  have "spec_decode (map ucast window_178) 0 = 178"
    by code_simp
  with s d reception_buffer_never_178 [OF s] show ?thesis by blast
qed

text \<open>C1. The claim has the state written at each of the eight offsets. In the window
  \<open>window_255\<close> the state is true at all eight, and the decoder as the specification
  words it yields 255; the code, which tests the count against offset 23 alone before it
  calls \<open>find_bit_position\<close>, sets bit 7 and no other bit: the byte stored is 128.\<close>

theorem only_offset_23_is_written:
  "map_sum id IR_get_data
     (run (map (\<lambda>t. Interrupt (capture_of t)) window_255 @ [Poll]) initialised)
     = Inr [0, 128, 0, 0, 0, 0, 0, 0, 0, 0, 0, 0]
   \<and> spec_decode (map ucast window_255) 0 = 255"
  by code_simp

subsection \<open>The twelfth window\<close>

lemma run_append:
  "run (xs @ ys) s = (case run xs s of Inl e \<Rightarrow> Inl e | Inr s' \<Rightarrow> run ys s')"
  by (induction xs arbitrary: s) (auto split: sum.splits)

lemma butlast_of_snoc: "xs = ys @ [x] \<Longrightarrow> xs = butlast xs @ [x]"
  by simp

lemma reception_last: "reception = butlast reception @ [Poll]"
proof -
  let ?w = "map (\<lambda>t. Interrupt (capture_of t)) window_178 @ [Interrupt Overflow, Poll]"
  have "replicate (Suc 11) ?w = replicate 11 ?w @ [?w]"
    by (simp only: replicate_append_same replicate_Suc)
  moreover have "(12 :: nat) = Suc 11"
    by simp
  ultimately have "replicate 12 ?w = replicate 11 ?w @ [?w]"
    by (simp only:)
  then have "reception =
      (concat (replicate 11 ?w) @ map (\<lambda>t. Interrupt (capture_of t)) window_178
        @ [Interrupt Overflow]) @ [Poll]"
    by (simp add: reception_def)
  then show ?thesis
    by (rule butlast_of_snoc)
qed

lemma reception_reaches_twelfth_window:
  "run (butlast reception) initialised = Inr twelfth_window_pending"
  by code_simp

text \<open>C10. The claim keeps every bit write of a decode below index 12. The capture
  handler counts a window before the poll decodes it, so the decode of the n-th window
  writes at index n: a reception of twelve windows, each one polled when it is complete,
  reaches the poll of the twelfth window with the counter at 12 and the flag set, and that
  poll writes at index 12, one past the end of the data buffer.\<close>

theorem twelfth_window_overruns_data_buffer:
  "map_sum id (\<lambda>s. (g_byte_cnt s, g_is_event_buffer_full s))
     (run (butlast reception) initialised) = Inr (12, True)
   \<and> run reception initialised = Inl (Data_buffer_overrun 12)"
proof -
  have b: "run [Poll] twelfth_window_pending = Inl (Data_buffer_overrun 12)"
    by code_simp
  have c: "g_byte_cnt twelfth_window_pending = 12"
    "g_is_event_buffer_full twelfth_window_pending"
    by (simp_all add: twelfth_window_pending_def)
  have "run reception initialised = run (butlast reception @ [Poll]) initialised"
    using reception_last by simp
  with reception_reaches_twelfth_window b c show ?thesis
    by (simp only: run_append) simp
qed

subsection \<open>Polling\<close>
















section \<open>Properties of the emitter\<close>

subsection \<open>What the routines put on the line\<close>

lemma led_on: "set_bit_byte q IR_LED = line_on q"
  by (simp add: set_bit_byte_def BV_def IR_LED_def line_on_def)

lemma led_off: "clear_bit_byte q IR_LED = line_off q"
  by (simp add: clear_bit_byte_def BV_def IR_LED_def line_off_def)

lemma on_then_off: "line_off (line_on q) = line_off q"
  unfolding line_on_def line_off_def by (rule bit_word_eqI) (auto simp: bit_simps)

lemma off_then_on: "line_on (line_off q) = line_on q"
  unfolding line_on_def line_off_def by (rule bit_word_eqI) (auto simp: bit_simps)

lemma off_then_off: "line_off (line_off q) = line_off q"
  unfolding line_on_def line_off_def by (rule bit_word_eqI) (auto simp: bit_simps)

lemma on_then_on: "line_on (line_on q) = line_on q"
  unfolding line_on_def by (rule bit_word_eqI) (auto simp: bit_simps)

lemmas line_simps = led_on led_off on_then_off off_then_on off_then_off on_then_on

lemma burst_cycles_eq:
  "burst_cycles n s =
     (concat (replicate n [Write_PORTD (line_on (PORTD s)), Delay_us (PERIOD / 2),
                           Write_PORTD (line_off (PORTD s)), Delay_us (PERIOD / 2)]),
      Inr (if n = 0 then s else s\<lparr>PORTD := line_off (PORTD s)\<rparr>))"
proof (induction n arbitrary: s)
  case 0
  show ?case by simp
next
  case (Suc n)
  show ?case
    by (simp add: Suc.IH line_simps Let_def)
qed

lemma pulse_on_line_off: "pulse_on_line (line_off q) = pulse_on_line q"
proof
  fix l
  show "pulse_on_line (line_off q) l = pulse_on_line q l"
    by (cases l) (simp_all add: Burst_def off_then_on off_then_off)
qed

lemma ir_led_transmission_eq:
  "ir_led_transmission l s =
     (pulse_on_line (PORTD s) l,
      Inr (if l = HIGH_LEVEL then s\<lparr>PORTD := line_off (PORTD s)\<rparr> else s))"
  by (cases l)
     (simp_all add: burst_cycles_eq CYCLES_def delay_us_def Burst_def PERIOD_def
        LOW_LEVEL1_TIME_def LOW_LEVEL2_TIME_def LOW_LEVEL3_TIME_def LOW_LEVEL4_TIME_def
        HALF_BIT_TIME_def CYCLES_FREQUENCY_def)

lemma levels_loop_eq:
  "levels_loop ls s =
     (concat (map (pulse_on_line (PORTD s)) ls),
      Inr (if HIGH_LEVEL \<in> set ls then s\<lparr>PORTD := line_off (PORTD s)\<rparr> else s))"
proof (induction ls arbitrary: s)
  case Nil
  show ?case by simp
next
  case (Cons l ls)
  show ?case
    by (simp add: then_emit_def ir_led_transmission_eq Cons.IH pulse_on_line_off off_then_off)
qed

lemma then_emit_Inr:
  "snd (then_emit f g s) = Inr s' \<Longrightarrow> \<exists>s1. snd (f s) = Inr s1 \<and> snd (g s1) = Inr s'"
  by (auto simp: then_emit_def split: prod.splits sum.splits)

lemma ir_led_transmission_cursor:
  "snd (ir_led_transmission l s) = Inr s' \<Longrightarrow> half_start_bits s' = half_start_bits s"
  by (auto simp: ir_led_transmission_eq split: if_splits)

lemma levels_loop_cursor:
  "snd (levels_loop ls s) = Inr s' \<Longrightarrow> half_start_bits s' = half_start_bits s"
  by (auto simp: levels_loop_eq split: if_splits)

lemma half_start_loop_cursor:
  "snd (half_start_loop n s) = Inr s' \<Longrightarrow>
     half_start_bits s' = half_start_bits s + n
     \<and> (0 < n \<longrightarrow> half_start_bits s' \<le> length g_half_start_bits)"
proof (induction n arbitrary: s)
  case 0
  then show ?case by simp
next
  case (Suc n)
  let ?k = "half_start_bits s"
  from Suc.prems have k: "?k < length g_half_start_bits"
    by (auto simp: Let_def split: if_splits)
  with Suc.prems have
    "snd (then_emit (ir_led_transmission (g_half_start_bits ! ?k)) (half_start_loop n)
            (s\<lparr>half_start_bits := ?k + 1\<rparr>)) = Inr s'"
    by (simp add: Let_def)
  from then_emit_Inr [OF this] obtain s1
    where a: "snd (ir_led_transmission (g_half_start_bits ! ?k) (s\<lparr>half_start_bits := ?k + 1\<rparr>)) = Inr s1"
      and b: "snd (half_start_loop n s1) = Inr s'"
    by blast
  from ir_led_transmission_cursor [OF a] have c: "half_start_bits s1 = ?k + 1"
    by simp
  from Suc.IH [OF b] c k show ?case
    by (cases n) auto
qed

lemma frame_transmission_cursor:
  assumes "snd (frame_transmission f n s) = Inr s'"
  shows "half_start_bits s' = half_start_bits s + 2 \<and> half_start_bits s' \<le> 6"
proof -
  from assms obtain s1 s2
    where a: "snd (half_start_loop sizeof_half_start_bits s) = Inr s1"
      and b: "snd (levels_loop (take n f) s1) = Inr s2"
      and c: "snd (delay_ms STOP_TIME s2) = Inr s'"
    unfolding frame_transmission_def
    by (blast dest!: then_emit_Inr)
  from half_start_loop_cursor [OF a] levels_loop_cursor [OF b] c show ?thesis
    by (simp add: sizeof_half_start_bits_def g_half_start_bits_def delay_ms_def)
qed

lemma frames_loop_cursor:
  "snd (frames_loop ixs frames lens s) = Inr s' \<Longrightarrow>
     half_start_bits s' = half_start_bits s + 2 * length ixs
     \<and> (ixs \<noteq> [] \<longrightarrow> half_start_bits s' \<le> 6)"
proof (induction ixs arbitrary: s)
  case Nil
  then show ?case by simp
next
  case (Cons i ixs)
  from Cons.prems obtain s1
    where a: "snd (frame_transmission (frames ! i) (lens ! i) s) = Inr s1"
      and b: "snd (frames_loop ixs frames lens s1) = Inr s'"
    by (auto dest!: then_emit_Inr)
  from frame_transmission_cursor [OF a] Cons.IH [OF b] show ?case
    by (cases ixs) auto
qed

lemma command_transmission_cursor:
  "snd (command_transmission frames lens n s) = Inr s' \<Longrightarrow>
     half_start_bits s' = half_start_bits s + 2 * n \<and> (0 < n \<longrightarrow> half_start_bits s' \<le> 6)"
  by (auto simp: command_transmission_def dest!: frames_loop_cursor)

lemma IR_send_request_stops: "snd (IR_send_request command s) \<noteq> Inr s'"
proof
  assume r: "snd (IR_send_request command s) = Inr s'"
  then obtain s1 s2 s3
    where a: "snd (command_transmission g_start_cmd g_start_cmd_len (length g_start_cmd_len) s) = Inr s1"
      and b: "snd (delay_ms START_TIME s1) = Inr s2"
      and d: "snd (command_transmission g_stop_cmd g_stop_cmd_len (length g_stop_cmd_len) s3) = Inr s'"
      and c: "half_start_bits s2 \<le> half_start_bits s3"
  proof -
    from r obtain s1 s2 s3
      where a: "snd (command_transmission g_start_cmd g_start_cmd_len (length g_start_cmd_len) s) = Inr s1"
        and b: "snd (delay_ms START_TIME s1) = Inr s2"
        and m: "snd ((if command = GET_COUNTER then
                command_transmission g_get_couter_cmd g_get_counter_cmd_len
                  (length g_get_counter_cmd_len)
              else if command = CLEAN_MEMORY then
                command_transmission g_clean_memory_cmd g_clean_memory_cmd_len
                  (length g_clean_memory_cmd_len)
              else (\<lambda>s. ([], Inr s))) s2) = Inr s3"
        and d: "snd (command_transmission g_stop_cmd g_stop_cmd_len (length g_stop_cmd_len) s3) = Inr s'"
      unfolding IR_send_request_def
      by (blast dest!: then_emit_Inr)
    from m have "half_start_bits s2 \<le> half_start_bits s3"
      by (auto split: if_splits dest!: command_transmission_cursor)
    with a b d that show ?thesis by blast
  qed
  from command_transmission_cursor [OF a] have "half_start_bits s1 = half_start_bits s + 4"
    by (simp add: g_start_cmd_len_def)
  moreover from b have "s2 = s1" by (simp add: delay_ms_def)
  moreover from command_transmission_cursor [OF d] have "half_start_bits s3 + 4 \<le> 6"
    by (simp add: g_stop_cmd_len_def)
  ultimately show False using c by simp
qed

lemma IR_send_request_overruns:
  "\<exists>k. snd (IR_send_request command s) = Inl (Preamble_overrun k)"
proof (cases "snd (IR_send_request command s)")
  case (Inl e)
  then show ?thesis by (cases e) simp
next
  case (Inr s')
  with IR_send_request_stops show ?thesis by blast
qed

lemma short_frame_on_line_off: "short_frame_on_line (line_off q) = short_frame_on_line q"
  by (rule ext) (simp add: short_frame_on_line_def pulse_on_line_off)

lemma half_start_loop_pair:
  "half_start_loop sizeof_half_start_bits \<lparr>PORTD = q, half_start_bits = 0\<rparr> =
     (Burst q @ [Delay_us 184.85], Inr \<lparr>PORTD = line_off q, half_start_bits = 2\<rparr>)"
  "half_start_loop sizeof_half_start_bits \<lparr>PORTD = q, half_start_bits = 2\<rparr> =
     (Burst q @ [Delay_us 184.85], Inr \<lparr>PORTD = line_off q, half_start_bits = 4\<rparr>)"
  "half_start_loop sizeof_half_start_bits \<lparr>PORTD = q, half_start_bits = 4\<rparr> =
     (Burst q @ [Delay_us 184.85], Inr \<lparr>PORTD = line_off q, half_start_bits = 6\<rparr>)"
  "half_start_loop sizeof_half_start_bits \<lparr>PORTD = q, half_start_bits = 6\<rparr> =
     ([], Inl (Preamble_overrun 6))"
  by (simp_all add: sizeof_half_start_bits_def numeral_2_eq_2 g_half_start_bits_def
        then_emit_def ir_led_transmission_eq Let_def eval_nat_numeral)

lemma frame_transmission_at:
  "frame_transmission f n \<lparr>PORTD = q, half_start_bits = 0\<rparr> =
     (short_frame_on_line q (take n f), Inr \<lparr>PORTD = line_off q, half_start_bits = 2\<rparr>)"
  "frame_transmission f n \<lparr>PORTD = q, half_start_bits = 2\<rparr> =
     (short_frame_on_line q (take n f), Inr \<lparr>PORTD = line_off q, half_start_bits = 4\<rparr>)"
  "frame_transmission f n \<lparr>PORTD = q, half_start_bits = 4\<rparr> =
     (short_frame_on_line q (take n f), Inr \<lparr>PORTD = line_off q, half_start_bits = 6\<rparr>)"
  "frame_transmission f n \<lparr>PORTD = q, half_start_bits = 6\<rparr> =
     ([], Inl (Preamble_overrun 6))"
  by (simp_all add: frame_transmission_def then_emit_def half_start_loop_pair levels_loop_eq
        delay_ms_def short_frame_on_line_def pulse_on_line_off off_then_off STOP_TIME_def)

lemma short_frame_not_empty: "short_frame_on_line q f \<noteq> []"
  by (simp add: short_frame_on_line_def)

lemma IR_send_request_from_0:
  "IR_send_request command \<lparr>PORTD = p, half_start_bits = 0\<rparr> =
     (short_frame_on_line p g_ascii_ESC @ short_frame_on_line p g_ascii_DP @
      [Delay_ms 31.95] @
      short_frame_on_line p
        (if command = GET_COUNTER then g_ascii_Y
         else if command = CLEAN_MEMORY then g_ascii_C else g_ascii_FF),
      Inl (Preamble_overrun 6))"
  by (simp add: IR_send_request_def command_transmission_def then_emit_def delay_ms_def
        START_TIME_def frame_transmission_at short_frame_on_line_off
        g_start_cmd_def g_start_cmd_len_def g_stop_cmd_def g_stop_cmd_len_def
        g_get_couter_cmd_def g_get_counter_cmd_len_def
        g_clean_memory_cmd_def g_clean_memory_cmd_len_def)

lemma IR_send_request_from_2:
  "IR_send_request command \<lparr>PORTD = p, half_start_bits = 2\<rparr> =
     (short_frame_on_line p g_ascii_ESC @ short_frame_on_line p g_ascii_DP @
      [Delay_ms 31.95],
      Inl (Preamble_overrun 6))"
  by (simp add: IR_send_request_def command_transmission_def then_emit_def delay_ms_def
        START_TIME_def frame_transmission_at short_frame_on_line_off
        g_start_cmd_def g_start_cmd_len_def g_stop_cmd_def g_stop_cmd_len_def
        g_get_couter_cmd_def g_get_counter_cmd_len_def
        g_clean_memory_cmd_def g_clean_memory_cmd_len_def)

lemma Burst_first: "Burst p = Write_PORTD (line_on p) # tl (Burst p)"
  by (simp add: Burst_def eval_nat_numeral)

lemma one_pair_is_not_three:
  "short_frame_on_line p g_ascii_ESC @ xs \<noteq> frame_on_line p g_ascii_ESC @ ys"
proof
  assume "short_frame_on_line p g_ascii_ESC @ xs = frame_on_line p g_ascii_ESC @ ys"
  then have "\<exists>d us vs. Delay_us d # us = Burst p @ vs"
    by (simp add: short_frame_on_line_def frame_on_line_def g_ascii_ESC_def) blast
  then obtain d us vs where "Delay_us d # us = Burst p @ vs"
    by blast
  then have "Delay_us d # us = Write_PORTD (line_on p) # (tl (Burst p) @ vs)"
    using Burst_first [of p] by (metis append_Cons)
  then show False by simp
qed

subsection \<open>The clean-memory request\<close>

text \<open>C5. The claim has \<open>IR_send_request\<close> with \<open>CLEAN_MEMORY\<close> emit the frames of ESC
  and DP, 31.95 ms, the frames of C, N, F, G and DEL, and the frames of FF and EOT, each
  frame after three times (Burst, ShortLow). On the code the first loop of
  \<open>frame_transmission\<close> runs \<^verbatim>\<open>sizeof(half_start_bits)\<close> times, the size of a pointer,
  and never moves the pointer back: wherever the pointer stands, the request reads past
  the preamble table before it is through. With the pointer at the first entry, the
  frames of ESC, DP and C go out with (Burst, ShortLow) once each, and the frame of N
  starts with a read at offset 6 of the six-entry table. What goes out is not the
  sequence of the claim.\<close>

theorem clean_memory_preamble_overruns:
  "(\<exists>k. snd (IR_send_request CLEAN_MEMORY s) = Inl (Preamble_overrun k))
   \<and> IR_send_request CLEAN_MEMORY \<lparr>PORTD = p, half_start_bits = 0\<rparr> =
       (short_frame_on_line p g_ascii_ESC @ short_frame_on_line p g_ascii_DP @
        [Delay_ms 31.95] @ short_frame_on_line p g_ascii_C,
        Inl (Preamble_overrun 6))
   \<and> fst (IR_send_request CLEAN_MEMORY \<lparr>PORTD = p, half_start_bits = 0\<rparr>)
       \<noteq> clean_memory_on_line p"
proof -
  have "fst (IR_send_request CLEAN_MEMORY \<lparr>PORTD = p, half_start_bits = 0\<rparr>)
       \<noteq> clean_memory_on_line p"
    unfolding clean_memory_on_line_def
    by (simp only: IR_send_request_from_0 fst_conv one_pair_is_not_three not_False_eq_True)
  then show ?thesis
    by (simp add: IR_send_request_overruns IR_send_request_from_0 CLEAN_MEMORY_def
          GET_COUNTER_def)
qed

subsection \<open>Repeating a request\<close>

text \<open>C6. The claim has no state kept between calls that changes what is emitted. On
  the code the preamble pointer is such state: a frame sent with the pointer at offset 0
  leaves it at offset 2, and the same frame with the pointer at offset 6 emits nothing and
  reads past the table; for every command, what \<open>IR_send_request\<close> emits with the
  pointer at offset 2, where one frame leaves it, differs from what it emits at offset 0;
  and no call of \<open>IR_send_request\<close> runs through, whatever the state.\<close>

theorem preamble_cursor_is_kept_between_frames:
  "frame_transmission data_frame len \<lparr>PORTD = p, half_start_bits = 0\<rparr> =
     (short_frame_on_line p (take len data_frame),
      Inr \<lparr>PORTD = line_off p, half_start_bits = 2\<rparr>)
   \<and> frame_transmission data_frame len \<lparr>PORTD = p, half_start_bits = 6\<rparr> =
     ([], Inl (Preamble_overrun 6))
   \<and> fst (IR_send_request command \<lparr>PORTD = p, half_start_bits = 0\<rparr>)
       \<noteq> fst (IR_send_request command \<lparr>PORTD = p, half_start_bits = 2\<rparr>)
   \<and> (\<exists>k. snd (IR_send_request command s) = Inl (Preamble_overrun k))"
  by (simp add: frame_transmission_at IR_send_request_from_0 IR_send_request_from_2
        short_frame_not_empty IR_send_request_overruns)

subsection \<open>The timing constants\<close>

text \<open>C9. ShortLow is \<open>427.25 - 8 * 30.3\<close> microseconds, MediumLow is 427.25, LongLow is
  ShortLow plus MediumLow, LongerLow is ShortLow plus twice MediumLow, the inter-frame
  delay is 2.84 ms and the delay after the start command 31.95 ms. They are constants:
  whatever the state, \<open>ir_led_transmission\<close> waits exactly the constant of its low
  level and does nothing else, and every frame that is sent through ends with the
  inter-frame delay.\<close>

theorem low_level_ladder:
  "LOW_LEVEL1_TIME = 427.25 - 8 * 30.3 \<and> LOW_LEVEL2_TIME = 427.25
   \<and> LOW_LEVEL3_TIME = LOW_LEVEL1_TIME + LOW_LEVEL2_TIME
   \<and> LOW_LEVEL4_TIME = LOW_LEVEL1_TIME + 2 * LOW_LEVEL2_TIME
   \<and> STOP_TIME = 2.84 \<and> START_TIME = 31.95
   \<and> ir_led_transmission LOW_LEVEL1 s = ([Delay_us LOW_LEVEL1_TIME], Inr s)
   \<and> ir_led_transmission LOW_LEVEL2 s = ([Delay_us LOW_LEVEL2_TIME], Inr s)
   \<and> ir_led_transmission LOW_LEVEL3 s = ([Delay_us LOW_LEVEL3_TIME], Inr s)
   \<and> ir_led_transmission LOW_LEVEL4 s = ([Delay_us LOW_LEVEL4_TIME], Inr s)
   \<and> (snd (frame_transmission data_frame len s) = Inr s' \<longrightarrow>
        last (fst (frame_transmission data_frame len s)) = Delay_ms STOP_TIME)"
proof -
  have "snd (frame_transmission data_frame len s) = Inr s' \<longrightarrow>
        last (fst (frame_transmission data_frame len s)) = Delay_ms STOP_TIME"
    by (auto simp: frame_transmission_def then_emit_def delay_ms_def
        split: prod.splits sum.splits)
  then show ?thesis
    by (simp add: LOW_LEVEL1_TIME_def LOW_LEVEL2_TIME_def LOW_LEVEL3_TIME_def
        LOW_LEVEL4_TIME_def HALF_BIT_TIME_def CYCLES_def CYCLES_FREQUENCY_def
        STOP_TIME_def START_TIME_def delay_us_def)
qed

text \<open>The frame of ESC, sent with the pointer at the first entry of the preamble
  table.\<close>

theorem low_level_ladder_witness:
  "snd (frame_transmission g_ascii_ESC 25 \<lparr>PORTD = 0, half_start_bits = 0\<rparr>)
     = Inr \<lparr>PORTD = 0, half_start_bits = 2\<rparr>
   \<and> last (fst (frame_transmission g_ascii_ESC 25 \<lparr>PORTD = 0, half_start_bits = 0\<rparr>))
     = Delay_ms STOP_TIME
   \<and> ir_led_transmission LOW_LEVEL1 \<lparr>PORTD = 0, half_start_bits = 0\<rparr>
     = ([Delay_us 184.85], Inr \<lparr>PORTD = 0, half_start_bits = 0\<rparr>)"
proof -
  have "snd (frame_transmission g_ascii_ESC 25 \<lparr>PORTD = 0, half_start_bits = 0\<rparr>)
     = Inr \<lparr>PORTD = 0, half_start_bits = 2\<rparr>"
    by (simp add: frame_transmission_at line_off_def)
  with low_level_ladder [of "\<lparr>PORTD = 0, half_start_bits = 0\<rparr>" g_ascii_ESC 25
      "\<lparr>PORTD = 0, half_start_bits = 2\<rparr>"]
  show ?thesis by simp
qed

end
